theory Spec2Isabelle
  imports Main "HOL-Library.Sublist"
begin

unbundle bit_operations_syntax

chapter \<open>nexus-ops: the Java syntax-tree exporter (package parser)\<close>

text \<open>
  The development follows \<^verbatim>\<open>src/parser/parse.go\<close>. A Go \<^verbatim>\<open>string\<close> is a
  sequence of bytes, so it is modelled as \<^typ>\<open>string\<close> (a list of 8-bit characters);
  the functions of the Go standard library that the program calls (\<^verbatim>\<open>strings\<close>,
  \<^verbatim>\<open>unicode\<close>, \<^verbatim>\<open>unicode/utf8\<close>, \<^verbatim>\<open>path/filepath\<close>,
  \<^verbatim>\<open>encoding/json\<close>) are modelled with their documented behaviour, UTF-8 decoding
  included, because \<^verbatim>\<open>strings.Fields\<close> and \<^verbatim>\<open>strings.TrimSpace\<close> decide what
  white space is rune by rune.
\<close>

section \<open>UTF-8 decoding (unicode/utf8) and white space (unicode.IsSpace)\<close>

type_synonym rune = nat

definition RuneError :: rune where
  "RuneError = 0xFFFD"

definition RuneSelf :: nat where
  "RuneSelf = 0x80"

definition UTFMax :: nat where
  "UTFMax = 4"

definition byte :: "char \<Rightarrow> nat" where
  "byte c = of_char c"

text \<open>
  The table \<^verbatim>\<open>first\<close> with \<^verbatim>\<open>acceptRanges\<close>: for a leading byte of a multi-byte
  sequence, the length of the sequence and the range its second byte must lie in.
  \<open>None\<close> is the table's \<^verbatim>\<open>xx\<close> (not a leading byte).
\<close>

definition acceptRange :: "nat \<Rightarrow> (nat \<times> nat \<times> nat) option" where
  "acceptRange s0 =
     (if 0xC2 \<le> s0 \<and> s0 \<le> 0xDF then Some (2, 0x80, 0xBF)
      else if s0 = 0xE0 then Some (3, 0xA0, 0xBF)
      else if 0xE1 \<le> s0 \<and> s0 \<le> 0xEC then Some (3, 0x80, 0xBF)
      else if s0 = 0xED then Some (3, 0x80, 0x9F)
      else if 0xEE \<le> s0 \<and> s0 \<le> 0xEF then Some (3, 0x80, 0xBF)
      else if s0 = 0xF0 then Some (4, 0x90, 0xBF)
      else if 0xF1 \<le> s0 \<and> s0 \<le> 0xF3 then Some (4, 0x80, 0xBF)
      else if s0 = 0xF4 then Some (4, 0x80, 0x8F)
      else None)"

text \<open>
  \<^verbatim>\<open>utf8.DecodeRuneInString\<close>: the first rune of \<open>s\<close> and its width in bytes. An
  invalid or truncated encoding gives \<open>(RuneError, 1)\<close>, the empty string
  \<open>(RuneError, 0)\<close>.
\<close>

definition decodeRune :: "string \<Rightarrow> rune \<times> nat" where
  "decodeRune s =
     (let n = length s in
      if n < 1 then (RuneError, 0)
      else let s0 = byte (s ! 0) in
      if s0 < RuneSelf then (s0, 1)
      else case acceptRange s0 of
        None \<Rightarrow> (RuneError, 1)
      | Some (sz, lo, hi) \<Rightarrow>
          if n < sz then (RuneError, 1)
          else let s1 = byte (s ! 1) in
          if s1 < lo \<or> hi < s1 then (RuneError, 1)
          else if sz \<le> 2 then (push_bit 6 (s0 AND 0x1F) OR (s1 AND 0x3F), 2)
          else let s2 = byte (s ! 2) in
          if s2 < 0x80 \<or> 0xBF < s2 then (RuneError, 1)
          else if sz \<le> 3
            then (push_bit 12 (s0 AND 0x0F) OR push_bit 6 (s1 AND 0x3F) OR (s2 AND 0x3F), 3)
          else let s3 = byte (s ! 3) in
          if s3 < 0x80 \<or> 0xBF < s3 then (RuneError, 1)
          else (push_bit 18 (s0 AND 0x07) OR push_bit 12 (s1 AND 0x3F)
                  OR push_bit 6 (s2 AND 0x3F) OR (s3 AND 0x3F), 4))"

text \<open>
  \<^verbatim>\<open>unicode.IsSpace\<close>: in Latin-1 the runes \<^verbatim>\<open>\t \n \v \f \r\<close>, space, U+0085 and
  U+00A0; above Latin-1 the code points with the property White_Space.
\<close>

definition isSpace :: "rune \<Rightarrow> bool" where
  "isSpace r =
     (if r \<le> 0xFF
      then r = 0x09 \<or> r = 0x0A \<or> r = 0x0B \<or> r = 0x0C \<or> r = 0x0D \<or> r = 0x20
             \<or> r = 0x85 \<or> r = 0xA0
      else r = 0x1680 \<or> (0x2000 \<le> r \<and> r \<le> 0x200A) \<or> r = 0x2028 \<or> r = 0x2029
             \<or> r = 0x202F \<or> r = 0x205F \<or> r = 0x3000)"

text \<open>\<^verbatim>\<open>unicode.IsControl\<close>: the category Cc, all of it in Latin-1.\<close>

definition isControl :: "rune \<Rightarrow> bool" where
  "isControl r = (r < 0x20 \<or> (0x7F \<le> r \<and> r < 0xA0))"

lemma acceptRange_SomeD:
  "acceptRange s0 = Some (sz, lo, hi) \<Longrightarrow>
     2 \<le> sz \<and> sz \<le> 4 \<and> 0x80 \<le> lo \<and> hi \<le> 0xBF \<and> 0xC2 \<le> s0"
  by (simp add: acceptRange_def split: if_splits)

lemma decodeRune_width:
  "s \<noteq> [] \<Longrightarrow> 1 \<le> snd (decodeRune s) \<and> snd (decodeRune s) \<le> length s"
  unfolding decodeRune_def Let_def
  by (auto simp: Suc_le_eq split: option.splits dest!: acceptRange_SomeD)

text \<open>
  \<^verbatim>\<open>utf8.DecodeLastRuneInString\<close> with its backward search for the start of the last
  rune (at most \<open>UTFMax\<close> bytes back); \<^verbatim>\<open>utf8.RuneStart\<close> tells a byte that is not a
  continuation byte.
\<close>

definition RuneStart :: "char \<Rightarrow> bool" where
  "RuneStart b = (byte b AND 0xC0 \<noteq> 0x80)"

function findStart :: "string \<Rightarrow> int \<Rightarrow> int \<Rightarrow> int" where
  "findStart s start lim =
     (if start \<ge> lim \<and> start \<ge> 0
      then (if RuneStart (s ! nat start) then start else findStart s (start - 1) lim)
      else start)"
  by pat_completeness auto
termination
  by (relation "measure (\<lambda>(s, start, lim). nat (start + 1))") auto

declare findStart.simps [simp del]

definition lastRuneStart :: "string \<Rightarrow> nat" where
  "lastRuneStart s =
     (let e = int (length s);
          lim = (if e - int UTFMax < 0 then 0 else e - int UTFMax);
          start = findStart s (e - 2) lim
      in if start < 0 then 0 else nat start)"

definition decodeLastRune :: "string \<Rightarrow> rune \<times> nat" where
  "decodeLastRune s =
     (let e = length s in
      if e = 0 then (RuneError, 0)
      else let r0 = byte (s ! (e - 1)) in
      if r0 < RuneSelf then (r0, 1)
      else let start = lastRuneStart s;
               (r, size) = decodeRune (drop start s)
      in if start + size \<noteq> e then (RuneError, 1) else (r, size))"

lemma findStart_bounds: "findStart s start lim \<le> start"
  apply (induction s start lim rule: findStart.induct)
  apply (subst findStart.simps)
  apply auto
  done

lemma lastRuneStart_less: "s \<noteq> [] \<Longrightarrow> lastRuneStart s < length s"
  using findStart_bounds[of s "int (length s) - 2" 0]
    findStart_bounds[of s "int (length s) - 2" "int (length s) - int UTFMax"]
  by (auto simp: lastRuneStart_def Let_def nat_less_iff)

lemma decodeLastRune_width:
  assumes "s \<noteq> []"
  shows "1 \<le> snd (decodeLastRune s) \<and> snd (decodeLastRune s) \<le> length s"
  using assms lastRuneStart_less[OF assms]
  by (auto simp: decodeLastRune_def Let_def Suc_le_eq split: prod.splits)

section \<open>The functions of package strings that the program calls\<close>

subsection \<open>strings.Fields and strings.Join\<close>

text \<open>
  \<^verbatim>\<open>strings.FieldsFunc\<close> ranges over the runes of \<open>s\<close>; \<open>cur\<close> is the field being
  read (\<open>None\<close> while the loop's \<^verbatim>\<open>start\<close> is negative). A rune that satisfies \<open>f\<close>
  closes the field, any other rune extends it. \<^verbatim>\<open>strings.Fields\<close> is
  \<^verbatim>\<open>FieldsFunc(s, unicode.IsSpace)\<close> (its ASCII fast path computes the same).
\<close>

function fieldsLoop :: "(rune \<Rightarrow> bool) \<Rightarrow> string option \<Rightarrow> string \<Rightarrow> string list" where
  "fieldsLoop f cur s =
     (if s = [] then (case cur of None \<Rightarrow> [] | Some fld \<Rightarrow> [fld])
      else let (r, w) = decodeRune s in
        if f r
        then (case cur of None \<Rightarrow> fieldsLoop f None (drop w s)
              | Some fld \<Rightarrow> fld # fieldsLoop f None (drop w s))
        else fieldsLoop f (Some (case cur of None \<Rightarrow> take w s | Some fld \<Rightarrow> fld @ take w s))
               (drop w s))"
  by pat_completeness auto
termination
proof (relation "measure (\<lambda>(f, cur, s). length s)")
  show "wf (measure (\<lambda>(f, cur, s). length s))" by simp
next
  fix f :: "rune \<Rightarrow> bool" and cur :: "string option" and s :: string and x r w
  assume "s \<noteq> []" "x = decodeRune s" "(r, w) = x"
  then have "1 \<le> w" using decodeRune_width[of s] by (metis snd_conv)
  then show "((f, None, drop w s), (f, cur, s)) \<in> measure (\<lambda>(f, cur, s). length s)"
    using \<open>s \<noteq> []\<close> by simp
next
  fix f :: "rune \<Rightarrow> bool" and cur :: "string option" and s :: string and x r w x2
  assume "s \<noteq> []" "x = decodeRune s" "(r, w) = x"
  then have "1 \<le> w" using decodeRune_width[of s] by (metis snd_conv)
  then show "((f, None, drop w s), (f, cur, s)) \<in> measure (\<lambda>(f, cur, s). length s)"
    using \<open>s \<noteq> []\<close> by simp
next
  fix f :: "rune \<Rightarrow> bool" and cur :: "string option" and s :: string and x r w
  assume "s \<noteq> []" "x = decodeRune s" "(r, w) = x"
  then have "1 \<le> w" using decodeRune_width[of s] by (metis snd_conv)
  then show "((f, Some (case cur of None \<Rightarrow> take w s | Some fld \<Rightarrow> fld @ take w s), drop w s),
              (f, cur, s)) \<in> measure (\<lambda>(f, cur, s). length s)"
    using \<open>s \<noteq> []\<close> by simp
qed

declare fieldsLoop.simps [simp del]

definition FieldsFunc :: "string \<Rightarrow> (rune \<Rightarrow> bool) \<Rightarrow> string list" where
  "FieldsFunc s f = fieldsLoop f None s"

definition Fields :: "string \<Rightarrow> string list" where
  "Fields s = FieldsFunc s isSpace"

fun Join :: "string list \<Rightarrow> string \<Rightarrow> string" where
  "Join [] sep = []"
| "Join [x] sep = x"
| "Join (x # y # ys) sep = x @ sep @ Join (y # ys) sep"

subsection \<open>strings.ReplaceAll\<close>

text \<open>
  \<^verbatim>\<open>strings.ReplaceAll(s, old, new)\<close> replaces the non-overlapping occurrences of
  \<open>old\<close> from the left. With an empty \<open>old\<close> it inserts \<open>new\<close> before every rune and
  at the end; the program never does that, the case is there for completeness.
\<close>

function replaceLoop :: "string \<Rightarrow> string \<Rightarrow> string \<Rightarrow> string" where
  "replaceLoop s old new =
     (if s = [] then []
      else if old \<noteq> [] \<and> prefix old s then new @ replaceLoop (drop (length old) s) old new
      else hd s # replaceLoop (tl s) old new)"
  by pat_completeness auto
termination
  by (relation "measure (\<lambda>(s, old, new). length s)") auto

declare replaceLoop.simps [simp del]

function runesSep :: "string \<Rightarrow> string \<Rightarrow> string" where
  "runesSep s new =
     (if s = [] then []
      else let w = snd (decodeRune s) in take w s @ new @ runesSep (drop w s) new)"
  by pat_completeness auto
termination
proof (relation "measure (\<lambda>(s, new). length s)")
  show "wf (measure (\<lambda>(s, new). length s))" by simp
next
  fix s new :: string and w
  assume "s \<noteq> []" "w = snd (decodeRune s)"
  then show "((drop w s, new), (s, new)) \<in> measure (\<lambda>(s, new). length s)"
    using decodeRune_width[of s] by simp
qed

declare runesSep.simps [simp del]

definition ReplaceAll :: "string \<Rightarrow> string \<Rightarrow> string \<Rightarrow> string" where
  "ReplaceAll s old new =
     (if old = new then s
      else if old = [] then new @ runesSep s new
      else replaceLoop s old new)"

subsection \<open>strings.TrimSpace and strings.TrimSuffix\<close>

text \<open>
  \<^verbatim>\<open>strings.TrimSpace(s)\<close> is \<^verbatim>\<open>TrimFunc(s, unicode.IsSpace)\<close>: the leading white
  space is found decoding forwards (\<^verbatim>\<open>indexFunc\<close>), the trailing white space decoding
  backwards (\<^verbatim>\<open>lastIndexFunc\<close>, over the prefix still to be examined).
\<close>

function indexFunc :: "string \<Rightarrow> (rune \<Rightarrow> bool) \<Rightarrow> bool \<Rightarrow> nat \<Rightarrow> nat option" where
  "indexFunc s f truth i =
     (if length s \<le> i then None
      else let (r, w) = decodeRune (drop i s) in
        if f r = truth then Some i else indexFunc s f truth (i + w))"
  by pat_completeness auto
termination
proof (relation "measure (\<lambda>(s, f, truth, i). length s - i)")
  show "wf (measure (\<lambda>(s, f, truth, i). length s - i))" by simp
next
  fix s :: string and f :: "rune \<Rightarrow> bool" and truth :: bool and i :: nat and x r w
  assume "\<not> length s \<le> i" "x = decodeRune (drop i s)" "(r, w) = x"
  then have "1 \<le> w" using decodeRune_width[of "drop i s"] by (metis drop_eq_Nil snd_conv)
  then show "((s, f, truth, i + w), (s, f, truth, i))
               \<in> measure (\<lambda>(s, f, truth, i). length s - i)"
    using \<open>\<not> length s \<le> i\<close> by simp
qed

declare indexFunc.simps [simp del]

function lastIndexFunc :: "string \<Rightarrow> (rune \<Rightarrow> bool) \<Rightarrow> bool \<Rightarrow> nat option" where
  "lastIndexFunc s f truth =
     (if s = [] then None
      else let (r, size) = decodeLastRune s; i = length s - size in
        if f r = truth then Some i else lastIndexFunc (take i s) f truth)"
  by pat_completeness auto
termination
proof (relation "measure (\<lambda>(s, f, truth). length s)")
  show "wf (measure (\<lambda>(s, f, truth). length s))" by simp
next
  fix s :: string and f :: "rune \<Rightarrow> bool" and truth :: bool and x r size i
  assume a: "s \<noteq> []" "x = decodeLastRune s" "(r, size) = x" "i = length s - size"
  then have "1 \<le> size" using decodeLastRune_width[of s] by (metis snd_conv)
  then show "((take i s, f, truth), (s, f, truth)) \<in> measure (\<lambda>(s, f, truth). length s)"
    using a by simp
qed

declare lastIndexFunc.simps [simp del]

definition TrimLeftFunc :: "string \<Rightarrow> (rune \<Rightarrow> bool) \<Rightarrow> string" where
  "TrimLeftFunc s f = (case indexFunc s f False 0 of None \<Rightarrow> [] | Some i \<Rightarrow> drop i s)"

definition TrimRightFunc :: "string \<Rightarrow> (rune \<Rightarrow> bool) \<Rightarrow> string" where
  "TrimRightFunc s f =
     (case lastIndexFunc s f False of
        None \<Rightarrow> []
      | Some i \<Rightarrow>
          if byte (s ! i) \<ge> RuneSelf
          then take (i + snd (decodeRune (drop i s))) s
          else take (i + 1) s)"

definition TrimFunc :: "string \<Rightarrow> (rune \<Rightarrow> bool) \<Rightarrow> string" where
  "TrimFunc s f = TrimRightFunc (TrimLeftFunc s f) f"

definition TrimSpace :: "string \<Rightarrow> string" where
  "TrimSpace s = TrimFunc s isSpace"

definition TrimSuffix :: "string \<Rightarrow> string \<Rightarrow> string" where
  "TrimSuffix s suf = (if suffix suf s then take (length s - length suf) s else s)"

section \<open>The Value Sanitizer: sanitizeValue (parse.go, lines 130--136)\<close>

definition spaceChar :: char where
  "spaceChar = CHR 0x20"

definition sanitizeValue :: "string \<Rightarrow> string" where
  "sanitizeValue v0 =
     (let v1 = ReplaceAll v0 [CHR 0x0D] [];
          v2 = ReplaceAll v1 [CHR 0x0A] [];
          v3 = ReplaceAll v2 [CHR 0x09] [spaceChar];
          v4 = Join (Fields v3) [spaceChar]
      in v4)"

section \<open>The Tree Reducer: traverseTree and isRedundantChildren (lines 83--127)\<close>

text \<open>
  A node of the concrete syntax tree, as the reducer reads it: \<^verbatim>\<open>node.Type()\<close>,
  \<^verbatim>\<open>node.Content(source)\<close> (the bytes of the source that the node spans) and the
  named children \<^verbatim>\<open>node.NamedChild(i)\<close> for \<^verbatim>\<open>i < node.NamedChildCount()\<close>, none
  of which is nil. The content is kept as a field of its own, so the model covers every
  tree the parsing engine can hand over (and more: it does not force a child's content
  to lie inside its parent's).
\<close>

datatype CNode = CNode (ctype: string) (content: string) (namedChildren: "CNode list")

text \<open>The generic node (lines 18--22). A nil slice and an empty slice are both \<open>[]\<close>.\<close>

datatype Node = Node (Type: string) (Value: string) (Children: "Node list")

text \<open>The loop of lines 115--120, with the accumulator \<^verbatim>\<open>compositeValue\<close>.\<close>

fun compositeLoop :: "string \<Rightarrow> CNode list \<Rightarrow> string" where
  "compositeLoop compositeValue [] = compositeValue"
| "compositeLoop compositeValue (child # rest) =
     compositeLoop (compositeValue @ TrimSpace (content child) @ ''.'') rest"

definition isRedundantChildren :: "CNode \<Rightarrow> bool" where
  "isRedundantChildren node =
     (if ctype node = ''scoped_identifier''
      then (let compositeValue = compositeLoop [] (namedChildren node);
                compositeValue = TrimSuffix compositeValue ''.''
            in TrimSpace (content node) = compositeValue)
      else False)"

text \<open>
  \<^verbatim>\<open>traverseTree\<close>: \<open>v\<close> is \<^verbatim>\<open>n.Value\<close> after lines 89--93; the early return of
  lines 96--98 leaves \<^verbatim>\<open>n.Children\<close> nil; otherwise the loop of lines 100--105 appends
  the reduction of every named child in order.
\<close>

fun traverseTree :: "CNode \<Rightarrow> Node" where
  "traverseTree (CNode ty txt cs) =
     (let v = (if ty \<noteq> ''class_declaration'' then sanitizeValue (TrimSpace txt) else [])
      in if v \<noteq> [] \<and> isRedundantChildren (CNode ty txt cs)
         then Node ty v []
         else Node ty v (map traverseTree cs))"

section \<open>The Declaration Locator (saveClassToFileWithDir, lines 140--150)\<close>

text \<open>
  The two nested \<^verbatim>\<open>for ... range\<close> loops, each with the variable \<^verbatim>\<open>className\<close> as
  its state. The \<^verbatim>\<open>break\<close> of line 146 leaves the inner loop only: the outer loop
  goes on to the next child of the root.
\<close>

fun innerLoop :: "string \<Rightarrow> Node list \<Rightarrow> string" where
  "innerLoop className [] = className"
| "innerLoop className (classChild # rest) =
     (if Type classChild = ''identifier'' then Value classChild
      else innerLoop className rest)"

fun outerLoop :: "string \<Rightarrow> Node list \<Rightarrow> string" where
  "outerLoop className [] = className"
| "outerLoop className (child # rest) =
     outerLoop
       (if Type child = ''class_declaration'' \<or> Type child = ''interface_declaration''
        then innerLoop className (Children child)
        else className)
       rest"

section \<open>The JSON shape of a Node (encoding/json with the struct tags of lines 18--22)\<close>

text \<open>
  \<^verbatim>\<open>json.Marshal\<close> writes a Go string as a JSON string coerced to valid UTF-8: every
  byte that does not decode (\<open>(RuneError, 1)\<close>) becomes U+FFFD, whose encoding is
  \<open>EF BF BD\<close>. \<^verbatim>\<open>utf8.ValidString\<close> tells the strings that this leaves alone. The
  escapes of the JSON text are undone by every decoder, so a JSON string is kept here as
  the bytes it denotes.
\<close>

function toValidUTF8 :: "string \<Rightarrow> string" where
  "toValidUTF8 s =
     (if s = [] then []
      else let (r, w) = decodeRune s in
        if r = RuneError \<and> w = 1
        then [CHR 0xEF, CHR 0xBF, CHR 0xBD] @ toValidUTF8 (drop 1 s)
        else take w s @ toValidUTF8 (drop w s))"
  by pat_completeness auto
termination
proof (relation "measure length")
  show "wf (measure length)" by simp
next
  fix s :: string and x r w
  assume "s \<noteq> []"
  then show "(drop 1 s, s) \<in> measure length" by simp
next
  fix s :: string and x r w
  assume "s \<noteq> []" "x = decodeRune s" "(r, w) = x"
  then have "1 \<le> w" using decodeRune_width[of s] by (metis snd_conv)
  then show "(drop w s, s) \<in> measure length" using \<open>s \<noteq> []\<close> by simp
qed

declare toValidUTF8.simps [simp del]

function ValidString :: "string \<Rightarrow> bool" where
  "ValidString s =
     (if s = [] then True
      else let (r, w) = decodeRune s in
        if r = RuneError \<and> w = 1 then False else ValidString (drop w s))"
  by pat_completeness auto
termination
proof (relation "measure length")
  show "wf (measure length)" by simp
next
  fix s :: string and x r w
  assume "s \<noteq> []" "x = decodeRune s" "(r, w) = x"
  then have "1 \<le> w" using decodeRune_width[of s] by (metis snd_conv)
  then show "(drop w s, s) \<in> measure length" using \<open>s \<noteq> []\<close> by simp
qed

declare ValidString.simps [simp del]

datatype json =
    JNull
  | JBool bool
  | JNumber int
  | JString string
  | JArray "json list"
  | JObject "(string \<times> json) list"

text \<open>
  The document \<^verbatim>\<open>json.MarshalIndent(tree, "", "  ")\<close> denotes: the fields in the
  order of the struct, \<^verbatim>\<open>value\<close> and \<^verbatim>\<open>children\<close> under \<^verbatim>\<open>omitempty\<close>.
\<close>

fun marshalNode :: "Node \<Rightarrow> json" where
  "marshalNode (Node t v cs) =
     JObject ([(''type'', JString (toValidUTF8 t))]
              @ (if v = [] then [] else [(''value'', JString (toValidUTF8 v))])
              @ (if cs = [] then [] else [(''children'', JArray (map marshalNode cs))]))"

text \<open>
  \<^verbatim>\<open>json.Unmarshal\<close> into a \<^verbatim>\<open>Node\<close> that starts as the zero value: the keys are
  taken in order, a later key overrides an earlier one, \<^verbatim>\<open>null\<close> leaves the field as it
  is, an unknown key is skipped, and a value of the wrong JSON type is an error (\<open>None\<close>).
  Go also accepts a key that differs from the tag only in letter case; the documents
  written by \<open>marshalNode\<close> have no such key, and the model does not accept one.
\<close>

fun unmarshalNode :: "json \<Rightarrow> Node option"
  and unmarshalFields :: "Node \<Rightarrow> (string \<times> json) list \<Rightarrow> Node option"
  and unmarshalNodes :: "json list \<Rightarrow> Node list option"
where
  "unmarshalNode (JObject kvs) = unmarshalFields (Node [] [] []) kvs"
| "unmarshalNode JNull = Some (Node [] [] [])"
| "unmarshalNode _ = None"
| "unmarshalFields n [] = Some n"
| "unmarshalFields n ((k, v) # kvs) =
     (if k = ''type'' then
        (case v of
           JString s \<Rightarrow> unmarshalFields (Node s (Value n) (Children n)) kvs
         | JNull \<Rightarrow> unmarshalFields n kvs
         | _ \<Rightarrow> None)
      else if k = ''value'' then
        (case v of
           JString s \<Rightarrow> unmarshalFields (Node (Type n) s (Children n)) kvs
         | JNull \<Rightarrow> unmarshalFields n kvs
         | _ \<Rightarrow> None)
      else if k = ''children'' then
        (case v of
           JArray xs \<Rightarrow>
             (case unmarshalNodes xs of
                None \<Rightarrow> None
              | Some cs \<Rightarrow> unmarshalFields (Node (Type n) (Value n) cs) kvs)
         | JNull \<Rightarrow> unmarshalFields n kvs
         | _ \<Rightarrow> None)
      else unmarshalFields n kvs)"
| "unmarshalNodes [] = Some []"
| "unmarshalNodes (x # xs) =
     (case unmarshalNode x of
        None \<Rightarrow> None
      | Some c \<Rightarrow> (case unmarshalNodes xs of None \<Rightarrow> None | Some cs \<Rightarrow> Some (c # cs)))"

section \<open>The Emitter: saveClassToFileWithDir (lines 139--185)\<close>

text \<open>
  A Go \<^verbatim>\<open>error\<close> value: the two sentinels of \<^verbatim>\<open>io/fs\<close> that
  \<^verbatim>\<open>filepath.WalkDir\<close> looks for, or any other error with its message.
  \<open>None :: error option\<close> is \<^verbatim>\<open>nil\<close>.
\<close>

datatype error = SkipDir | SkipAll | Err string

fun errorString :: "error \<Rightarrow> string" where
  "errorString SkipDir = ''skip this directory''"
| "errorString SkipAll = ''skip everything and stop the walk''"
| "errorString (Err msg) = msg"

text \<open>
  What the program takes from outside: the parsing engine (the root of the tree for the
  bytes of a file), the file system with state \<open>'fs\<close> (\<^verbatim>\<open>os.ReadFile\<close>,
  \<^verbatim>\<open>os.MkdirAll\<close>, \<^verbatim>\<open>ioutil.WriteFile\<close>, each of which may fail, the last two
  leaving a new state), the lexical path functions of \<^verbatim>\<open>path/filepath\<close>, and the
  layout of the JSON text. Nothing is assumed about them.
\<close>

record 'fs env =
  parseJava :: "string \<Rightarrow> CNode"
  ReadFile :: "string \<Rightarrow> 'fs \<Rightarrow> error + string"
  MkdirAll :: "string \<Rightarrow> 'fs \<Rightarrow> error option \<times> 'fs"
  WriteFile :: "string \<Rightarrow> string \<Rightarrow> 'fs \<Rightarrow> error option \<times> 'fs"
  Rel :: "string \<Rightarrow> string \<Rightarrow> error + string"
  Dir :: "string \<Rightarrow> string"
  JoinPath :: "string \<Rightarrow> string \<Rightarrow> string"
  renderIndent :: "json \<Rightarrow> string"

text \<open>The state a run changes: the file system and the lines given to \<^verbatim>\<open>log.Printf\<close>.\<close>

record 'fs world =
  fsys :: 'fs
  logged :: "string list"

definition logPrintf :: "string \<Rightarrow> 'fs world \<Rightarrow> 'fs world" where
  "logPrintf msg w = w\<lparr>logged := logged w @ [msg]\<rparr>"

text \<open>
  \<^verbatim>\<open>json.MarshalIndent\<close> on a \<^verbatim>\<open>Node\<close> always succeeds (strings, and slices of
  structs of strings); the branch of lines 174--176 is kept in the model all the same.
\<close>

definition MarshalIndent :: "'fs env \<Rightarrow> Node \<Rightarrow> error + string" where
  "MarshalIndent env tree = Inr (renderIndent env (marshalNode tree))"

definition saveClassToFileWithDir ::
  "'fs env \<Rightarrow> Node \<Rightarrow> string \<Rightarrow> string \<Rightarrow> 'fs world \<Rightarrow> error option \<times> 'fs world" where
  "saveClassToFileWithDir env tree filePath rootDir w =
     (let className = outerLoop [] (Children tree) in
      if className = []
      then (None, logPrintf (''Nenhuma classe ou interface encontrada em '' @ filePath) w)
      else
        let outputBaseDir = ''output'' in
        case Rel env rootDir (Dir env filePath) of
          Inl err \<Rightarrow>
            (Some (Err (''erro ao calcular o caminho relativo: '' @ errorString err)), w)
        | Inr relativePath \<Rightarrow>
            let outputDir = JoinPath env outputBaseDir relativePath;
                (mkErr, fs1) = MkdirAll env outputDir (fsys w);
                w1 = w\<lparr>fsys := fs1\<rparr>
            in case mkErr of
              Some err \<Rightarrow>
                (Some (Err (''erro ao criar diret'' @ [CHR 0xC3, CHR 0xB3] @ ''rios: ''
                            @ errorString err)), w1)
            | None \<Rightarrow>
                let outputFileName = className @ ''.json'';
                    outputFilePath = JoinPath env outputDir outputFileName
                in case MarshalIndent env tree of
                  Inl err \<Rightarrow> (Some (Err (''erro ao gerar JSON: '' @ errorString err)), w1)
                | Inr jsonData \<Rightarrow>
                    let (wrErr, fs2) = WriteFile env outputFilePath jsonData fs1;
                        w2 = w1\<lparr>fsys := fs2\<rparr>
                    in case wrErr of
                      Some err \<Rightarrow>
                        (Some (Err (''erro ao escrever arquivo JSON: '' @ errorString err)), w2)
                    | None \<Rightarrow>
                        (None, logPrintf (''Classe '' @ className @ '' salva em ''
                                          @ outputFilePath) w2))"

section \<open>The Project Walker: ParseProject and extractTree (lines 25--80)\<close>

definition extractTree :: "'fs env \<Rightarrow> string \<Rightarrow> 'fs \<Rightarrow> error + Node" where
  "extractTree env filePath fs =
     (case ReadFile env filePath fs of
        Inl err \<Rightarrow> Inl err
      | Inr source \<Rightarrow> Inr (traverseTree (parseJava env source)))"

text \<open>
  \<^verbatim>\<open>filepath.Ext\<close> (with \<open>/\<close> as the separator): the suffix from the last dot of the
  last element of the path, scanning from the end; \<open>acc\<close> is what has been passed.
\<close>

fun extScan :: "string \<Rightarrow> string \<Rightarrow> string" where
  "extScan [] acc = []"
| "extScan (c # front) acc =
     (if c = CHR ''/'' then []
      else if c = CHR ''.'' then c # acc
      else extScan front (c # acc))"

definition Ext :: "string \<Rightarrow> string" where
  "Ext path = extScan (rev path) []"

text \<open>
  The directory tree as the walk finds it: a file (anything that is not a directory), or
  a directory with the result of \<^verbatim>\<open>os.ReadDir\<close> on it, an error or none and the
  entries read. The root comes with the result of \<^verbatim>\<open>os.Lstat\<close>. A call that returns
  an \<^verbatim>\<open>error\<close> either returns or panics (a method called on a nil \<^verbatim>\<open>DirEntry\<close>).
\<close>

datatype DirEntry = DirEntry (Name: string) (IsDir: bool)



datatype result = Ret "error option" | Panic

type_synonym 'w WalkDirFunc =
  "string \<Rightarrow> DirEntry option \<Rightarrow> error option \<Rightarrow> 'w \<Rightarrow> result \<times> 'w"



text \<open>The callback of lines 30--58.\<close>

definition walkFn :: "'fs env \<Rightarrow> string \<Rightarrow> 'fs world WalkDirFunc" where
  "walkFn env rootDir path d err w =
     (case err of
        Some e \<Rightarrow> (Ret None, logPrintf (''Erro acessando '' @ path @ '': '' @ errorString e) w)
      | None \<Rightarrow>
          (case d of
             None \<Rightarrow> (Panic, w)
           | Some de \<Rightarrow>
               if IsDir de then (Ret None, w)
               else if Ext (Name de) \<noteq> ''.java'' then (Ret None, w)
               else
                 (case extractTree env path (fsys w) of
                    Inl e \<Rightarrow>
                      (Ret None,
                       logPrintf (''Erro parseando '' @ path @ '': '' @ errorString e) w)
                  | Inr tree \<Rightarrow>
                      (case saveClassToFileWithDir env tree path rootDir w of
                         (Some e, w1) \<Rightarrow>
                           (Ret None,
                            logPrintf (''Erro ao salvar arquivo JSON para '' @ path @ '': ''
                                       @ errorString e) w1)
                       | (None, w1) \<Rightarrow> (Ret None, w1)))))"


section \<open>Notions used to state and prove the properties, and example inputs\<close>

definition contByte :: "char \<Rightarrow> bool" where
  "contByte c = (0x80 \<le> byte c \<and> byte c \<le> 0xBF)"

definition asciiSpace :: "char \<Rightarrow> bool" where
  "asciiSpace c = (byte c = 0x09 \<or> byte c = 0x0A \<or> byte c = 0x0B \<or> byte c = 0x0C
                     \<or> byte c = 0x0D \<or> byte c = 0x20)"

text \<open>
  \<open>nsRun c t\<close>: read in front of \<open>t\<close>, the bytes \<open>c\<close> decode as a sequence of runes
  that are not white space and that end exactly where \<open>c\<close> ends.
\<close>

inductive nsRun :: "string \<Rightarrow> string \<Rightarrow> bool" where
  nsRun_Nil: "nsRun [] t"
| nsRun_Step: "decodeRune (u @ v @ t) = (r, length u) \<Longrightarrow> u \<noteq> [] \<Longrightarrow> \<not> isSpace r \<Longrightarrow>
               nsRun v t \<Longrightarrow> nsRun (u @ v) t"

text \<open>What every field of \<open>Fields\<close> is.\<close>

definition goodField :: "string \<Rightarrow> bool" where
  "goodField c = (c \<noteq> [] \<and> nsRun c [] \<and> (\<forall>b \<in> set c. \<not> asciiSpace b))"

definition appField :: "string option \<Rightarrow> string \<Rightarrow> string" where
  "appField cur u = (case cur of None \<Rightarrow> u | Some fld \<Rightarrow> fld @ u)"

text \<open>Two spaces in a row, somewhere in the string.\<close>

fun doubleSpace :: "string \<Rightarrow> bool" where
  "doubleSpace (a # b # r) = ((a = spaceChar \<and> b = spaceChar) \<or> doubleSpace (b # r))"
| "doubleSpace [] = False"
| "doubleSpace [a] = False"

text \<open>The trimmed texts of the named children, in source order.\<close>

definition childTexts :: "CNode \<Rightarrow> string list" where
  "childTexts node = map (\<lambda>child. TrimSpace (content child)) (namedChildren node)"

text \<open>
  Two nodes as the Java grammar gives them for \<^verbatim>\<open>import a  . b.c;\<close> (white space is
  allowed between the tokens of a qualified name): the outer \<^verbatim>\<open>scoped_identifier\<close>
  spans \<^verbatim>\<open>a  . b.c\<close>, its children are the inner \<^verbatim>\<open>scoped_identifier\<close> spanning
  \<^verbatim>\<open>a  . b\<close> and the identifier \<^verbatim>\<open>c\<close>. The third node is a
  \<^verbatim>\<open>scoped_identifier\<close> of width zero with one child of width zero.
\<close>

definition innerScoped :: CNode where
  "innerScoped = CNode ''scoped_identifier'' ''a  . b''
                   [CNode ''identifier'' ''a'' [], CNode ''identifier'' ''b'' []]"

definition outerScoped :: CNode where
  "outerScoped = CNode ''scoped_identifier'' ''a  . b.c''
                   [innerScoped, CNode ''identifier'' ''c'' []]"

definition emptyScoped :: CNode where
  "emptyScoped = CNode ''scoped_identifier'' [] [CNode ''identifier'' [] []]"

text \<open>The node of \<^verbatim>\<open>interface A { }\<close>.\<close>

definition interfaceNode :: CNode where
  "interfaceNode = CNode ''interface_declaration'' ''interface A { }''
                     [CNode ''identifier'' ''A'' [], CNode ''interface_body'' ''{ }'' []]"

definition fieldAccess :: CNode where
  "fieldAccess = CNode ''field_access'' ''a.b''
                   [CNode ''identifier'' ''a'' [], CNode ''identifier'' ''b'' []]"

definition isDeclaration :: "Node \<Rightarrow> bool" where
  "isDeclaration n = (Type n = ''class_declaration'' \<or> Type n = ''interface_declaration'')"

text \<open>The Value of the first node of type \<^verbatim>\<open>identifier\<close> in a list, if there is one.\<close>

fun firstIdentifier :: "Node list \<Rightarrow> string option" where
  "firstIdentifier [] = None"
| "firstIdentifier (g # gs) = (if Type g = ''identifier'' then Some (Value g) else firstIdentifier gs)"

text \<open>
  The names that the declarations among the children give, in source order: one for
  every child that is a declaration and has a grandchild of type \<^verbatim>\<open>identifier\<close>.
\<close>

fun declNames :: "Node list \<Rightarrow> string list" where
  "declNames [] = []"
| "declNames (c # cs) =
     (if isDeclaration c
      then (case firstIdentifier (Children c) of
              None \<Rightarrow> declNames cs
            | Some name \<Rightarrow> name # declNames cs)
      else declNames cs)"

text \<open>
  The locator as the specification words it: the name comes from the first top-level
  declaration that has an identifier, and the scan stops there.
\<close>

fun specLocate :: "Node list \<Rightarrow> string option" where
  "specLocate [] = None"
| "specLocate (c # cs) =
     (if isDeclaration c
      then (case firstIdentifier (Children c) of
              None \<Rightarrow> specLocate cs
            | Some name \<Rightarrow> Some name)
      else specLocate cs)"

text \<open>
  A concrete environment to run the emitter in: the file system is the list of the files
  written, no file can be read, no other operation fails, paths are joined with a slash
  (joining with \<^verbatim>\<open>.\<close> adds nothing, as in \<^verbatim>\<open>filepath.Join\<close>), and the relative
  path is always \<^verbatim>\<open>.\<close> (the file lies in the root directory).
\<close>

definition testEnv :: "(string \<times> string) list env" where
  "testEnv = \<lparr> parseJava = (\<lambda>source. CNode ''program'' source []),
               ReadFile = (\<lambda>path fs. Inl (Err ''no such file'')),
               MkdirAll = (\<lambda>path fs. (None, fs)),
               WriteFile = (\<lambda>path bytes fs. (None, fs @ [(path, bytes)])),
               Rel = (\<lambda>base target. Inr ''.''),
               Dir = (\<lambda>path. ''src''),
               JoinPath = (\<lambda>a b. if b = ''.'' then a else a @ ''/'' @ b),
               renderIndent = (\<lambda>j. ''{}'') \<rparr>"

definition emptyWorld :: "(string \<times> string) list world" where
  "emptyWorld = \<lparr> fsys = [], logged = [] \<rparr>"

text \<open>
  A file \<^verbatim>\<open>class Foo { } class Bar { }\<close>: the tree the parsing engine gives for it
  (named nodes with the text they span), and its reduction.
\<close>

definition twoClassesTree :: CNode where
  "twoClassesTree = CNode ''program'' ''class Foo { } class Bar { }''
     [CNode ''class_declaration'' ''class Foo { }''
        [CNode ''identifier'' ''Foo'' [], CNode ''class_body'' ''{ }'' []],
      CNode ''class_declaration'' ''class Bar { }''
        [CNode ''identifier'' ''Bar'' [], CNode ''class_body'' ''{ }'' []]]"

definition twoClasses :: Node where
  "twoClasses = Node ''program'' ''class Foo { } class Bar { }''
     [Node ''class_declaration'' [] [Node ''identifier'' ''Foo'' [], Node ''class_body'' ''{ }'' []],
      Node ''class_declaration'' [] [Node ''identifier'' ''Bar'' [], Node ''class_body'' ''{ }'' []]]"

text \<open>The environment \<open>testEnv\<close> with every file read being that file.\<close>

definition twoClassesEnv :: "(string \<times> string) list env" where
  "twoClassesEnv = testEnv
     \<lparr> parseJava := (\<lambda>source. twoClassesTree),
       ReadFile := (\<lambda>path fs. Inr ''class Foo { } class Bar { }'') \<rparr>"

text \<open>The reduced tree of a file with a package statement only.\<close>

definition packageOnly :: Node where
  "packageOnly = Node ''program'' ''package com.acme;''
     [Node ''package_declaration'' ''package com.acme;''
        [Node ''scoped_identifier'' ''com.acme'' []]]"

text \<open>
  The same environment with a readable file: every file holds a package statement, and
  the parsing engine gives the tree of that statement.
\<close>

definition packageEnv :: "(string \<times> string) list env" where
  "packageEnv = testEnv
     \<lparr> parseJava := (\<lambda>source.
          CNode ''program'' source
            [CNode ''package_declaration'' source
               [CNode ''scoped_identifier'' ''com.acme''
                  [CNode ''identifier'' ''com'' [], CNode ''identifier'' ''acme'' []]]]),
       ReadFile := (\<lambda>path fs. Inr ''package com.acme;'') \<rparr>"









text \<open>A tree whose strings are all valid UTF-8, and the tree that \<^verbatim>\<open>json.Marshal\<close> writes.\<close>

fun validNode :: "Node \<Rightarrow> bool" where
  "validNode (Node t v cs) = (ValidString t \<and> ValidString v \<and> (\<forall>c \<in> set cs. validNode c))"

fun coerceNode :: "Node \<Rightarrow> Node" where
  "coerceNode (Node t v cs) = Node (toValidUTF8 t) (toValidUTF8 v) (map coerceNode cs)"

fun jsonKeys :: "json \<Rightarrow> string list" where
  "jsonKeys (JObject kvs) = map fst kvs"
| "jsonKeys other = []"

text \<open>
  A comment \<^verbatim>\<open>// \<close> followed by the byte \<open>E9\<close> (the letter e with an acute accent
  in a file saved as Latin-1), and its reduction.
\<close>

definition latin1Text :: string where
  "latin1Text = ''// '' @ [CHR 0xE9]"

definition latin1Comment :: Node where
  "latin1Comment = Node ''line_comment'' latin1Text []"

text \<open>
  The tree of the specification's first scenario, for the file
  \<^verbatim>\<open>package com.acme; public class Foo { int x; }\<close> (the class body kept as a
  leaf).
\<close>

definition fooTree :: Node where
  "fooTree = Node ''program'' ''package com.acme; public class Foo { int x; }''
     [Node ''package_declaration'' ''package com.acme;''
        [Node ''scoped_identifier'' ''com.acme'' []],
      Node ''class_declaration'' []
        [Node ''modifiers'' ''public'' [], Node ''identifier'' ''Foo'' [],
         Node ''class_body'' ''{ int x; }'' []]]"

section \<open>The library models on known inputs\<close>

text \<open>
  What Go computes on the same inputs: U+00A0 and U+2028 are white space, a byte \<open>E9\<close>
  in front of a space and the overlong \<open>C0 80\<close> are invalid.
\<close>

lemma decodeRune_examples:
  "decodeRune ''a'' = (0x61, 1)"
  "decodeRune [CHR 0xC2, CHR 0xA0] = (0xA0, 2)"
  "decodeRune [CHR 0xE2, CHR 0x80, CHR 0xA8] = (0x2028, 3)"
  "decodeRune [CHR 0xF0, CHR 0x9F, CHR 0x98, CHR 0x80] = (0x1F600, 4)"
  "decodeRune [CHR 0xE9, CHR 0x20] = (RuneError, 1)"
  "decodeRune [CHR 0xC0, CHR 0x80] = (RuneError, 1)"
  by (simp_all add: decodeRune_def acceptRange_def byte_def RuneSelf_def)

lemma Fields_examples:
  "Fields ''  ab  c d '' = [''ab'', ''c'', ''d'']"
  "Fields (''a'' @ [CHR 0xC2, CHR 0xA0, CHR 0x0B] @ ''b'') = [''a'', ''b'']"
  "Fields [] = []"
  by (simp_all add: Fields_def FieldsFunc_def fieldsLoop.simps Let_def decodeRune_def
      acceptRange_def byte_def RuneSelf_def RuneError_def isSpace_def split del: if_split)

lemma TrimSpace_examples:
  "TrimSpace ''  a b  '' = ''a b''"
  "TrimSpace ([CHR 0x0A, CHR 0x09] @ ''x'' @ [CHR 0xC2, CHR 0xA0]) = ''x''"
  "TrimSpace ''   '' = []"
  by (simp_all add: TrimSpace_def TrimFunc_def TrimLeftFunc_def TrimRightFunc_def
      indexFunc.simps lastIndexFunc.simps decodeLastRune_def lastRuneStart_def findStart.simps
      RuneStart_def UTFMax_def decodeRune_def acceptRange_def byte_def RuneSelf_def
      RuneError_def isSpace_def Let_def split del: if_split)

lemma ReplaceAll_examples:
  "ReplaceAll ''abcabc'' ''bc'' ''X'' = ''aXaX''"
  "ReplaceAll ''ab'' [] ''-'' = ''-a-b-''"
  by code_simp+

lemma TrimSuffix_examples:
  "TrimSuffix ''a.b.'' ''.'' = ''a.b''"
  "TrimSuffix ''a..'' ''.'' = ''a.''"
  "TrimSuffix [] ''.'' = []"
  by (simp_all add: TrimSuffix_def suffix_def)

lemma Ext_examples:
  "Ext ''Foo.java'' = ''.java''"
  "Ext ''a.b/Foo'' = []"
  "Ext ''.java'' = ''.java''"
  by code_simp+

section \<open>Lemmas about decoding and fields\<close>

text \<open>
  What follows a string does not change how its first rune decodes, as long as the next
  byte is not a continuation byte: a sequence cut short by the end of the string and one
  cut short by such a byte are both invalid.
\<close>

lemma decodeRune_ctx:
  assumes "u \<noteq> []" "t = [] \<or> \<not> contByte (hd t)"
  shows "decodeRune (u @ t) = decodeRune u"
proof (cases t)
  case Nil then show ?thesis by simp
next
  case (Cons c t')
  with assms have nc: "byte c < 0x80 \<or> 0xBF < byte c" by (auto simp: contByte_def)
  obtain a u' where u: "u = a # u'" using assms(1) by (cases u) auto
  show ?thesis
  proof (cases "byte a < RuneSelf")
    case True then show ?thesis by (simp add: decodeRune_def u)
  next
    case F1: False
    show ?thesis
    proof (cases "acceptRange (byte a)")
      case None then show ?thesis using F1 by (simp add: decodeRune_def u)
    next
      case (Some trip)
      then obtain sz lo hi where acc: "acceptRange (byte a) = Some (sz, lo, hi)"
        by (cases trip) auto
      note rng = acceptRange_SomeD[OF acc]
      show ?thesis
      proof (cases u')
        case Nil
        then show ?thesis using F1 acc rng nc Cons u
          by (auto simp: decodeRune_def Let_def)
      next
        case C2: (Cons b u'')
        show ?thesis
        proof (cases u'')
          case Nil
          then show ?thesis using F1 acc rng nc Cons u C2
            by (auto simp: decodeRune_def Let_def)
        next
          case C3: (Cons d u''')
          show ?thesis
          proof (cases u''')
            case Nil
            then show ?thesis using F1 acc rng nc Cons u C2 C3
              by (auto simp: decodeRune_def Let_def)
          next
            case C4: (Cons e u'''')
            then show ?thesis using F1 acc rng nc Cons u C2 C3
              by (auto simp: decodeRune_def Let_def)
          qed
        qed
      qed
    qed
  qed
qed

lemma decodeRune_high_bytes:
  assumes "s \<noteq> []" "decodeRune s = (r, w)" "\<not> byte (s ! 0) < 0x80" "i < w"
  shows "0x80 \<le> byte (s ! i)"
proof -
  have i: "i = 0 \<or> i = 1 \<or> i = 2 \<or> i = 3 \<or> 4 \<le> i" by arith
  show ?thesis
    using assms i unfolding decodeRune_def Let_def RuneSelf_def
    by (auto split: option.splits if_splits dest!: acceptRange_SomeD)
qed

lemma decodeRune_space_head:
  assumes "s \<noteq> []" "decodeRune s = (r, w)" "isSpace r"
  shows "\<not> contByte (hd s)"
proof
  assume c: "contByte (hd s)"
  then have "acceptRange (byte (s ! 0)) = None" "\<not> byte (s ! 0) < RuneSelf"
    using assms(1) by (auto simp: contByte_def acceptRange_def RuneSelf_def hd_conv_nth)
  then have "decodeRune s = (RuneError, 1)"
    using assms(1) by (simp add: decodeRune_def)
  with assms show False by (simp add: isSpace_def RuneError_def)
qed

lemma asciiSpace_isSpace: "asciiSpace c \<Longrightarrow> isSpace (byte c)"
  by (auto simp: asciiSpace_def isSpace_def)

lemma decodeRune_ascii:
  "s \<noteq> [] \<Longrightarrow> byte (s ! 0) < 0x80 \<Longrightarrow> decodeRune s = (byte (s ! 0), 1)"
  by (simp add: decodeRune_def RuneSelf_def)

lemma decodeRune_nonspace_bytes:
  assumes "s \<noteq> []" "decodeRune s = (r, w)" "\<not> isSpace r" "b \<in> set (take w s)"
  shows "\<not> asciiSpace b"
proof (cases "byte (s ! 0) < 0x80")
  case True
  with assms(1,2) have rw: "r = byte (s ! 0)" "w = 1" using decodeRune_ascii[of s] by auto
  with assms(1,4) have "b = s ! 0" by (cases s) auto
  with rw assms(3) show ?thesis using asciiSpace_isSpace by blast
next
  case False
  from assms(4) obtain i where i: "i < w" "i < length s" "b = s ! i"
    by (auto simp: in_set_conv_nth)
  with decodeRune_high_bytes[OF assms(1,2) False i(1)] show ?thesis
    by (auto simp: asciiSpace_def)
qed

lemma fieldsLoop_Nil: "fieldsLoop f cur [] = (case cur of None \<Rightarrow> [] | Some fld \<Rightarrow> [fld])"
  by (simp add: fieldsLoop.simps)

lemma fieldsLoop_space:
  "s \<noteq> [] \<Longrightarrow> decodeRune s = (r, w) \<Longrightarrow> f r \<Longrightarrow>
   fieldsLoop f cur s = (case cur of None \<Rightarrow> [] | Some fld \<Rightarrow> [fld]) @ fieldsLoop f None (drop w s)"
  by (subst fieldsLoop.simps) (simp split: option.splits)

lemma fieldsLoop_nonspace:
  "s \<noteq> [] \<Longrightarrow> decodeRune s = (r, w) \<Longrightarrow> \<not> f r \<Longrightarrow>
   fieldsLoop f cur s =
     fieldsLoop f (Some (case cur of None \<Rightarrow> take w s | Some fld \<Rightarrow> fld @ take w s)) (drop w s)"
  by (subst fieldsLoop.simps) simp

lemma nsRun_snoc:
  assumes "nsRun c s" "s \<noteq> []" "decodeRune s = (r, w)" "\<not> isSpace r"
  shows "nsRun (c @ take w s) (drop w s)"
  using assms
proof (induction c s rule: nsRun.induct)
  case (nsRun_Nil t)
  have w: "1 \<le> w" "w \<le> length t" using decodeRune_width[OF nsRun_Nil(1)] nsRun_Nil(2) by auto
  have "nsRun (take w t @ []) (drop w t)"
    by (rule nsRun_Step[where r = r]) (use w nsRun_Nil in \<open>auto intro: nsRun.nsRun_Nil\<close>)
  then show ?case by simp
next
  case (nsRun_Step u v t r')
  have "nsRun (u @ (v @ take w t)) (drop w t)"
    by (rule nsRun.nsRun_Step[where r = r']) (use nsRun_Step in auto)
  then show ?case by simp
qed

lemma nsRun_ctx:
  assumes "nsRun c t" "t = [] \<or> \<not> contByte (hd t)" "t' = [] \<or> \<not> contByte (hd t')"
  shows "nsRun c t'"
  using assms
proof (induction c t rule: nsRun.induct)
  case (nsRun_Nil t)
  show ?case by (rule nsRun.nsRun_Nil)
next
  case (nsRun_Step u v t r)
  have "decodeRune ((u @ v) @ t) = decodeRune (u @ v)"
    by (rule decodeRune_ctx) (use nsRun_Step in auto)
  moreover have "decodeRune ((u @ v) @ t') = decodeRune (u @ v)"
    by (rule decodeRune_ctx) (use nsRun_Step in auto)
  ultimately have "decodeRune (u @ v @ t') = (r, length u)" using nsRun_Step(1) by simp
  then show ?case using nsRun_Step by (auto intro: nsRun.nsRun_Step)
qed

lemma fieldsLoop_good:
  assumes "f = isSpace"
    and "\<And>c. cur = Some c \<Longrightarrow> c \<noteq> [] \<and> nsRun c s \<and> (\<forall>b \<in> set c. \<not> asciiSpace b)"
  shows "\<forall>fld \<in> set (fieldsLoop f cur s). goodField fld"
  using assms
proof (induction f cur s rule: fieldsLoop.induct)
  case (1 f cur s)
  note f = "1.prems"(1)
  note inv = "1.prems"(2)
  show ?case
  proof (cases "s = []")
    case True
    then show ?thesis using inv by (auto simp: fieldsLoop_Nil goodField_def split: option.splits)
  next
    case False
    obtain r w where rw: "decodeRune s = (r, w)" by (cases "decodeRune s") auto
    have w: "1 \<le> w" "w \<le> length s" using decodeRune_width[OF False] rw by auto
    show ?thesis
    proof (cases "isSpace r")
      case True
      have hd: "s = [] \<or> \<not> contByte (hd s)" using decodeRune_space_head[OF False rw True] by simp
      have rest: "\<forall>fld \<in> set (fieldsLoop f None (drop w s)). goodField fld"
      proof (cases cur)
        case None
        show ?thesis
          by (rule "1.IH"(1)[OF False rw[symmetric] refl _ None f]) (use True f in simp_all)
      next
        case (Some c)
        show ?thesis
          by (rule "1.IH"(2)[OF False rw[symmetric] refl _ Some f]) (use True f in simp_all)
      qed
      have "\<And>c. cur = Some c \<Longrightarrow> goodField c"
        using inv nsRun_ctx[OF _ hd, of _ "[]"] by (auto simp: goodField_def)
      moreover have "fieldsLoop f cur s =
          (case cur of None \<Rightarrow> [] | Some fld \<Rightarrow> [fld]) @ fieldsLoop f None (drop w s)"
        by (rule fieldsLoop_space[OF False rw]) (use True f in simp)
      ultimately show ?thesis using rest
        by (auto split: option.splits)
    next
      case Fsp: False
      let ?cur' = "Some (case cur of None \<Rightarrow> take w s | Some fld \<Rightarrow> fld @ take w s)"
      have "\<forall>fld \<in> set (fieldsLoop f ?cur' (drop w s)). goodField fld"
      proof (rule "1.IH"(3)[OF False rw[symmetric] refl _ f])
        show "\<not> f r" using Fsp f by simp
      next
        fix c assume c: "?cur' = Some c"
        have nb: "\<forall>b \<in> set (take w s). \<not> asciiSpace b"
          using decodeRune_nonspace_bytes[OF False rw Fsp] by blast
        show "c \<noteq> [] \<and> nsRun c (drop w s) \<and> (\<forall>b \<in> set c. \<not> asciiSpace b)"
        proof (cases cur)
          case None
          have "nsRun ([] @ take w s) (drop w s)"
            by (rule nsRun_snoc[OF nsRun_Nil False rw Fsp])
          then show ?thesis using c None w False nb by auto
        next
          case (Some d)
          have "nsRun (d @ take w s) (drop w s)"
            by (rule nsRun_snoc[OF _ False rw Fsp]) (use inv[OF Some] in simp)
          then show ?thesis using c Some inv[OF Some] nb by auto
        qed
      qed
      moreover have "fieldsLoop f cur s = fieldsLoop f ?cur' (drop w s)"
        by (rule fieldsLoop_nonspace[OF False rw]) (use Fsp f in simp)
      ultimately show ?thesis by simp
    qed
  qed
qed

lemma fieldsLoop_run:
  assumes "nsRun u t" "u \<noteq> []"
  shows "fieldsLoop isSpace cur (u @ t) = fieldsLoop isSpace (Some (appField cur u)) t"
  using assms
proof (induction u t arbitrary: cur rule: nsRun.induct)
  case (nsRun_Nil t)
  then show ?case by simp
next
  case (nsRun_Step u v t r)
  have ne: "(u @ v) @ t \<noteq> []" using nsRun_Step(2) by simp
  have rw: "decodeRune ((u @ v) @ t) = (r, length u)" using nsRun_Step(1) by simp
  have step: "fieldsLoop isSpace cur ((u @ v) @ t) =
      fieldsLoop isSpace (Some (appField cur u)) (v @ t)"
    using fieldsLoop_nonspace[OF ne rw, of isSpace cur] nsRun_Step(3)
    by (simp add: appField_def split: option.splits)
  show ?case
  proof (cases "v = []")
    case True
    then show ?thesis using step by simp
  next
    case False
    have "fieldsLoop isSpace (Some (appField cur u)) (v @ t) =
        fieldsLoop isSpace (Some (appField (Some (appField cur u)) v)) t"
      by (rule nsRun_Step.IH[OF False])
    then show ?thesis using step by (simp add: appField_def split: option.splits)
  qed
qed

lemma not_contByte_space: "\<not> contByte spaceChar"
  by (simp add: contByte_def spaceChar_def byte_def)

lemma fieldsLoop_sep:
  "fieldsLoop isSpace (Some c) (spaceChar # t) = c # fieldsLoop isSpace None t"
proof -
  have "decodeRune (spaceChar # t) = (0x20, 1)"
    by (simp add: decodeRune_def spaceChar_def byte_def RuneSelf_def)
  moreover have "isSpace 0x20" by (simp add: isSpace_def)
  ultimately show ?thesis
    using fieldsLoop_space[of "spaceChar # t" "0x20" 1 isSpace "Some c"] by simp
qed

lemma Fields_Join_good:
  assumes "\<forall>fld \<in> set fs. goodField fld"
  shows "fieldsLoop isSpace None (Join fs [spaceChar]) = fs"
  using assms
proof (induction fs "[spaceChar]" rule: Join.induct)
  case 1
  show ?case by (simp add: fieldsLoop_Nil)
next
  case (2 x)
  then have "nsRun x []" "x \<noteq> []" by (auto simp: goodField_def)
  from fieldsLoop_run[OF this, of None] show ?case
    by (simp add: appField_def fieldsLoop_Nil)
next
  case (3 x y ys)
  then have x: "nsRun x []" "x \<noteq> []" by (auto simp: goodField_def)
  let ?t = "spaceChar # Join (y # ys) [spaceChar]"
  have "nsRun x ?t"
    by (rule nsRun_ctx[OF x(1)]) (simp_all add: not_contByte_space)
  from fieldsLoop_run[OF this x(2), of None]
  have "fieldsLoop isSpace None (x @ ?t) = fieldsLoop isSpace (Some x) ?t"
    by (simp add: appField_def)
  also have "\<dots> = x # fieldsLoop isSpace None (Join (y # ys) [spaceChar])"
    by (rule fieldsLoop_sep)
  also have "\<dots> = x # y # ys" using 3 by simp
  finally show ?case by simp
qed

lemma Fields_good: "\<forall>fld \<in> set (Fields s). goodField fld"
  unfolding Fields_def FieldsFunc_def
  by (rule fieldsLoop_good) simp_all

lemma Fields_Join_Fields: "Fields (Join (Fields s) [spaceChar]) = Fields s"
  using Fields_Join_good[OF Fields_good] by (simp add: Fields_def FieldsFunc_def)

lemma Join_good_bytes:
  assumes "\<forall>fld \<in> set fs. goodField fld" "b \<in> set (Join fs [spaceChar])"
  shows "b = spaceChar \<or> \<not> asciiSpace b"
  using assms
  by (induction fs "[spaceChar]" rule: Join.induct) (auto simp: goodField_def)

lemma Join_good_hd:
  assumes "\<forall>fld \<in> set fs. goodField fld" "fs \<noteq> []"
  shows "Join fs [spaceChar] \<noteq> [] \<and> hd (Join fs [spaceChar]) \<noteq> spaceChar"
  using assms
proof (induction fs "[spaceChar]" rule: Join.induct)
  case 1 then show ?case by simp
next
  case (2 x)
  then have "x \<noteq> []" "\<not> asciiSpace (hd x)" by (auto simp: goodField_def)
  then show ?case by (auto simp: asciiSpace_def spaceChar_def byte_def)
next
  case (3 x y ys)
  then have "x \<noteq> []" "\<not> asciiSpace (hd x)" by (auto simp: goodField_def)
  then show ?case by (auto simp: asciiSpace_def spaceChar_def byte_def)
qed

lemma doubleSpace_append_sep:
  assumes "x \<noteq> []" "spaceChar \<notin> set x" "y \<noteq> []" "hd y \<noteq> spaceChar" "\<not> doubleSpace y"
  shows "\<not> doubleSpace (x @ spaceChar # y)"
  using assms
proof (induction x rule: doubleSpace.induct)
  case (1 a b r)
  then show ?case by auto
next
  case 2
  then show ?case by simp
next
  case (3 v)
  then show ?case by (cases y) auto
qed

lemma doubleSpace_no_space: "spaceChar \<notin> set x \<Longrightarrow> \<not> doubleSpace x"
  by (induction x rule: doubleSpace.induct) auto

lemma goodField_no_space: "goodField x \<Longrightarrow> spaceChar \<notin> set x"
  by (auto simp: goodField_def asciiSpace_def spaceChar_def byte_def)

lemma Join_good_no_doubleSpace:
  assumes "\<forall>fld \<in> set fs. goodField fld"
  shows "\<not> doubleSpace (Join fs [spaceChar])"
  using assms
proof (induction fs "[spaceChar]" rule: Join.induct)
  case 1 show ?case by simp
next
  case (2 x)
  then show ?case using doubleSpace_no_space goodField_no_space by simp
next
  case (3 x y ys)
  have "\<not> doubleSpace (x @ spaceChar # Join (y # ys) [spaceChar])"
  proof (rule doubleSpace_append_sep)
    show "x \<noteq> []" using 3(2) by (simp add: goodField_def)
    show "spaceChar \<notin> set x" using 3(2) goodField_no_space by simp
    show "Join (y # ys) [spaceChar] \<noteq> []" "hd (Join (y # ys) [spaceChar]) \<noteq> spaceChar"
      using Join_good_hd[of "y # ys"] 3(2) by simp_all
    show "\<not> doubleSpace (Join (y # ys) [spaceChar])" using 3 by simp
  qed
  then show ?case by simp
qed

lemma doubleSpace_sublist: "doubleSpace s \<longleftrightarrow> sublist [spaceChar, spaceChar] s"
proof (induction s rule: doubleSpace.induct)
  case (1 a b r)
  have "sublist [spaceChar, spaceChar] (a # b # r) \<longleftrightarrow>
        prefix [spaceChar, spaceChar] (a # b # r) \<or> sublist [spaceChar, spaceChar] (b # r)"
    by (simp add: sublist_Cons_right)
  then show ?case using 1 by auto
next
  case 2 show ?case by simp
next
  case (3 v) show ?case by (auto simp: sublist_Cons_right)
qed

section \<open>Lemmas about the sanitizer\<close>

lemma replaceLoop_byte:
  "replaceLoop s [c] new = concat (map (\<lambda>b. if b = c then new else [b]) s)"
proof (induction s)
  case Nil
  show ?case by (simp add: replaceLoop.simps)
next
  case (Cons a s)
  show ?case using Cons by (subst replaceLoop.simps) auto
qed

lemma ReplaceAll_absent:
  assumes "c \<notin> set s"
  shows "ReplaceAll s [c] new = s"
proof -
  have "concat (map (\<lambda>b. if b = c then new else [b]) s) = s"
    using assms by (induction s) auto
  then show ?thesis by (simp add: ReplaceAll_def replaceLoop_byte)
qed

lemma sanitizeValue_Join:
  "\<exists>y. sanitizeValue x = Join (Fields y) [spaceChar]"
  by (auto simp: sanitizeValue_def)

lemma sanitizeValue_bytes:
  assumes "b \<in> set (sanitizeValue x)"
  shows "b = spaceChar \<or> \<not> asciiSpace b"
proof -
  obtain y where y: "sanitizeValue x = Join (Fields y) [spaceChar]"
    using sanitizeValue_Join by blast
  show ?thesis using Join_good_bytes[OF Fields_good, of b y] assms y by simp
qed

lemma sanitizeValue_no_ws:
  "CHR 0x0D \<notin> set (sanitizeValue x)" "CHR 0x0A \<notin> set (sanitizeValue x)"
  "CHR 0x09 \<notin> set (sanitizeValue x)" "CHR 0x0B \<notin> set (sanitizeValue x)"
  "CHR 0x0C \<notin> set (sanitizeValue x)"
  using sanitizeValue_bytes[of "CHR 0x0D" x] sanitizeValue_bytes[of "CHR 0x0A" x]
    sanitizeValue_bytes[of "CHR 0x09" x] sanitizeValue_bytes[of "CHR 0x0B" x]
    sanitizeValue_bytes[of "CHR 0x0C" x]
  by (auto simp: asciiSpace_def spaceChar_def byte_def)

lemma sanitizeValue_no_doubleSpace: "\<not> doubleSpace (sanitizeValue x)"
proof -
  obtain y where y: "sanitizeValue x = Join (Fields y) [spaceChar]"
    using sanitizeValue_Join by blast
  show ?thesis unfolding y by (rule Join_good_no_doubleSpace[OF Fields_good])
qed

lemma isSpace_ascii: "byte b < 0x80 \<Longrightarrow> isSpace (byte b) \<Longrightarrow> asciiSpace b"
  by (auto simp: isSpace_def asciiSpace_def)

text \<open>
  An ASCII byte is never part of a longer rune: wherever it stands among the bytes of a
  decoded rune, it is that rune.
\<close>

lemma decodeRune_ascii_member:
  assumes "s \<noteq> []" "decodeRune s = (r, w)" "b \<in> set (take w s)" "byte b < 0x80"
  shows "r = byte b"
proof (cases "byte (s ! 0) < 0x80")
  case True
  with assms(1,2) have rw: "r = byte (s ! 0)" "w = 1" using decodeRune_ascii[of s] by auto
  with assms(1,3) have "b = s ! 0" by (cases s) auto
  with rw show ?thesis by simp
next
  case False
  from assms(3) obtain i where i: "i < w" "i < length s" "b = s ! i"
    by (auto simp: in_set_conv_nth)
  with decodeRune_high_bytes[OF assms(1,2) False i(1)] assms(4) show ?thesis by simp
qed

lemma fieldsLoop_keeps_ascii:
  assumes "f = isSpace" "byte b < 0x80" "\<not> asciiSpace b"
    and "b \<in> set s \<or> (\<exists>c. cur = Some c \<and> b \<in> set c)"
  shows "\<exists>fld \<in> set (fieldsLoop f cur s). b \<in> set fld"
  using assms
proof (induction f cur s rule: fieldsLoop.induct)
  case (1 f cur s)
  note f = "1.prems"(1)
  note b = "1.prems"(2,3)
  note mem = "1.prems"(4)
  show ?case
  proof (cases "s = []")
    case True
    then show ?thesis using mem by (auto simp: fieldsLoop_Nil)
  next
    case False
    obtain r w where rw: "decodeRune s = (r, w)" by (cases "decodeRune s") auto
    have split: "set s = set (take w s) \<union> set (drop w s)"
      by (metis append_take_drop_id set_append)
    show ?thesis
    proof (cases "isSpace r")
      case True
      have eq: "fieldsLoop f cur s =
          (case cur of None \<Rightarrow> [] | Some fld \<Rightarrow> [fld]) @ fieldsLoop f None (drop w s)"
        by (rule fieldsLoop_space[OF False rw]) (use True f in simp)
      have notin: "b \<notin> set (take w s)"
      proof
        assume "b \<in> set (take w s)"
        then have "r = byte b" using decodeRune_ascii_member[OF False rw _ b(1)] by simp
        then show False using True b isSpace_ascii by blast
      qed
      show ?thesis
      proof (cases "\<exists>c. cur = Some c \<and> b \<in> set c")
        case True
        then show ?thesis using eq by auto
      next
        case inCur: False
        then have d: "b \<in> set (drop w s)" using mem split notin by auto
        have "\<exists>fld \<in> set (fieldsLoop f None (drop w s)). b \<in> set fld"
        proof (cases cur)
          case None
          show ?thesis
            by (rule "1.IH"(1)[OF False rw[symmetric] refl _ None f b])
               (use True f d in simp_all)
        next
          case (Some c)
          show ?thesis
            by (rule "1.IH"(2)[OF False rw[symmetric] refl _ Some f b])
               (use True f d in simp_all)
        qed
        then show ?thesis using eq by auto
      qed
    next
      case Fsp: False
      let ?cur' = "Some (case cur of None \<Rightarrow> take w s | Some fld \<Rightarrow> fld @ take w s)"
      have eq: "fieldsLoop f cur s = fieldsLoop f ?cur' (drop w s)"
        by (rule fieldsLoop_nonspace[OF False rw]) (use Fsp f in simp)
      have "\<exists>fld \<in> set (fieldsLoop f ?cur' (drop w s)). b \<in> set fld"
      proof (rule "1.IH"(3)[OF False rw[symmetric] refl _ f b])
        show "\<not> f r" using Fsp f by simp
      next
        show "b \<in> set (drop w s) \<or> (\<exists>c. ?cur' = Some c \<and> b \<in> set c)"
          using mem split by (cases cur) auto
      qed
      then show ?thesis using eq by simp
    qed
  qed
qed

lemma Join_keeps: "fld \<in> set fs \<Longrightarrow> b \<in> set fld \<Longrightarrow> b \<in> set (Join fs sep)"
  by (induction fs sep rule: Join.induct) auto

lemma ReplaceAll_keeps: "b \<in> set s \<Longrightarrow> b \<noteq> c \<Longrightarrow> b \<in> set (ReplaceAll s [c] new)"
  by (auto simp: ReplaceAll_def replaceLoop_byte)

lemma sanitizeValue_keeps_ascii:
  assumes "byte b < 0x80" "\<not> asciiSpace b" "b \<in> set x"
  shows "b \<in> set (sanitizeValue x)"
proof -
  have ne: "b \<noteq> CHR 0x0D" "b \<noteq> CHR 0x0A" "b \<noteq> CHR 0x09"
    using assms(2) by (auto simp: asciiSpace_def byte_def)
  define v3 where "v3 = ReplaceAll (ReplaceAll (ReplaceAll x [CHR 0x0D] []) [CHR 0x0A] [])
                          [CHR 0x09] [spaceChar]"
  have "b \<in> set v3" unfolding v3_def using assms(3) ne by (intro ReplaceAll_keeps)
  then obtain fld where "fld \<in> set (Fields v3)" "b \<in> set fld"
    using fieldsLoop_keeps_ascii[of isSpace b v3 None] assms(1,2)
    by (auto simp: Fields_def FieldsFunc_def)
  then have "b \<in> set (Join (Fields v3) [spaceChar])" by (rule Join_keeps)
  then show ?thesis by (simp add: sanitizeValue_def v3_def)
qed

section \<open>The claims about the sanitizer\<close>

lemma sanitizeValue_example:
  "sanitizeValue (''  a'' @ [CHR 0x09, CHR 0x0A] @ ''b   c '' @ [CHR 0x0D]) = ''a b c''"
  by code_simp

lemma sanitizeValue_escape: "sanitizeValue [CHR 0x1B] = [CHR 0x1B]"
  by code_simp

text \<open>
  Claim C5. The sanitizer is idempotent: for every input string \<open>x\<close>,
  \<open>sanitize (sanitize x) = sanitize x\<close>. It is a pure and total function: the model is a
  function of its argument alone, and each of its loops (\<open>replaceLoop\<close>, \<open>fieldsLoop\<close>)
  has its termination proof, so there is no input on which it fails to return.

  The first pass leaves a string with no carriage return, newline or tab, so the three
  replacements of the second pass change nothing; and the fields of the first result,
  joined by single spaces, are read back by \<open>Fields\<close> as the same fields, also when the
  input is not valid UTF-8.
\<close>

theorem C5_sanitize_idempotent:
  "sanitizeValue (sanitizeValue x) = sanitizeValue x"
proof -
  obtain y where y: "sanitizeValue x = Join (Fields y) [spaceChar]"
    using sanitizeValue_Join by blast
  let ?J = "sanitizeValue x"
  have r: "ReplaceAll ?J [CHR 0x0D] [] = ?J" "ReplaceAll ?J [CHR 0x0A] [] = ?J"
    "ReplaceAll ?J [CHR 0x09] [spaceChar] = ?J"
    by (simp_all add: ReplaceAll_absent sanitizeValue_no_ws)
  have "sanitizeValue ?J = Join (Fields ?J) [spaceChar]"
    by (simp add: sanitizeValue_def[of ?J] r)
  also have "\<dots> = ?J" by (simp add: y Fields_Join_Fields)
  finally show ?thesis .
qed

theorem C5_sanitize_idempotent_witness:
  "sanitizeValue (sanitizeValue (''  a'' @ [CHR 0x09, CHR 0x0A] @ ''b   c '' @ [CHR 0x0D]))
     = ''a b c''"
  using C5_sanitize_idempotent[of "''  a'' @ [CHR 0x09, CHR 0x0A] @ ''b   c '' @ [CHR 0x0D]"]
  by (simp only: sanitizeValue_example)

text \<open>
  Claim C6, as stated: for every input string \<open>x\<close>, \<open>sanitize x\<close> contains no carriage
  return, no newline, no tab, no two consecutive spaces, and no control characters at
  all. The last part fails: the sanitizer removes white space only, and a control
  character that is not white space, such as ESC (\<open>0x1B\<close>), passes through unchanged.
\<close>

theorem C6_control_counterexample:
  "CHR 0x1B \<in> set (sanitizeValue [CHR 0x1B]) \<and> isControl (byte (CHR 0x1B))"
  by (simp add: sanitizeValue_escape isControl_def byte_def)

text \<open>
  Claim C6, amended: for every input string \<open>x\<close>, \<open>sanitize x\<close> contains no carriage
  return, no newline, no tab (nor the other two white-space control characters of ASCII,
  vertical tab and form feed) and no two consecutive spaces; every ASCII character of
  \<open>x\<close> that is not white space, the control characters among them (NUL, ESC, DEL and
  the like), still occurs in \<open>sanitize x\<close>.
\<close>

theorem C6_sanitize_no_whitespace_runs:
  "CHR 0x0D \<notin> set (sanitizeValue x) \<and> CHR 0x0A \<notin> set (sanitizeValue x)
   \<and> CHR 0x09 \<notin> set (sanitizeValue x) \<and> CHR 0x0B \<notin> set (sanitizeValue x)
   \<and> CHR 0x0C \<notin> set (sanitizeValue x)
   \<and> \<not> sublist [spaceChar, spaceChar] (sanitizeValue x)
   \<and> (byte b < 0x80 \<longrightarrow> \<not> asciiSpace b \<longrightarrow> b \<in> set x \<longrightarrow> b \<in> set (sanitizeValue x))"
proof -
  have "\<not> sublist [spaceChar, spaceChar] (sanitizeValue x)"
    using sanitizeValue_no_doubleSpace[of x] by (simp add: doubleSpace_sublist)
  then show ?thesis
    using sanitizeValue_no_ws[of x] sanitizeValue_keeps_ascii[of b x] by simp
qed

lemma sanitizeValue_example_esc:
  "sanitizeValue ([CHR 0x00] @ '' a'' @ [CHR 0x1B, CHR 0x09, CHR 0x0A] @ ''b  '' @ [CHR 0x7F])
     = [CHR 0x00] @ '' a'' @ [CHR 0x1B] @ '' b '' @ [CHR 0x7F]"
  by code_simp

theorem C6_sanitize_no_whitespace_runs_witness:
  "sanitizeValue ([CHR 0x00] @ '' a'' @ [CHR 0x1B, CHR 0x09, CHR 0x0A] @ ''b  '' @ [CHR 0x7F])
     = [CHR 0x00] @ '' a'' @ [CHR 0x1B] @ '' b '' @ [CHR 0x7F]
   \<and> isControl (byte (CHR 0x1B)) \<and> byte (CHR 0x1B) < 0x80 \<and> \<not> asciiSpace (CHR 0x1B)
   \<and> CHR 0x1B \<in> set (sanitizeValue
        ([CHR 0x00] @ '' a'' @ [CHR 0x1B, CHR 0x09, CHR 0x0A] @ ''b  '' @ [CHR 0x7F]))
   \<and> CHR 0x09 \<notin> set (sanitizeValue
        ([CHR 0x00] @ '' a'' @ [CHR 0x1B, CHR 0x09, CHR 0x0A] @ ''b  '' @ [CHR 0x7F]))"
proof -
  have h: "byte (CHR 0x1B) < 0x80" "\<not> asciiSpace (CHR 0x1B)" "isControl (byte (CHR 0x1B))"
    "CHR 0x1B \<in> set ([CHR 0x00] @ '' a'' @ [CHR 0x1B, CHR 0x09, CHR 0x0A] @ ''b  '' @ [CHR 0x7F])"
    by (simp_all add: byte_def asciiSpace_def isControl_def)
  show ?thesis
    using C6_sanitize_no_whitespace_runs[of
        "[CHR 0x00] @ '' a'' @ [CHR 0x1B, CHR 0x09, CHR 0x0A] @ ''b  '' @ [CHR 0x7F]" "CHR 0x1B"] h
      sanitizeValue_example_esc
    by blast
qed

section \<open>The claims about the reducer\<close>

lemma compositeLoop_concat:
  "compositeLoop acc cs = acc @ concat (map (\<lambda>c. TrimSpace (content c) @ ''.'') cs)"
  by (induction cs arbitrary: acc) simp_all

lemma concat_dots_Join:
  "ts \<noteq> [] \<Longrightarrow> concat (map (\<lambda>t. t @ ''.'') ts) = Join ts ''.'' @ ''.''"
  by (induction ts "''.''" rule: Join.induct) simp_all

text \<open>
  Lines 114--122 compute the \<open>.\<close>-join: every child's text is followed by a dot, and
  \<^verbatim>\<open>strings.TrimSuffix\<close> takes exactly one dot off the end (none when there is no
  child).
\<close>

lemma composite_is_Join:
  "TrimSuffix (compositeLoop [] (namedChildren node)) ''.'' = Join (childTexts node) ''.''"
proof (cases "namedChildren node = []")
  case True
  then show ?thesis by (simp add: childTexts_def TrimSuffix_def)
next
  case False
  then have ne: "childTexts node \<noteq> []" by (simp add: childTexts_def)
  have "compositeLoop [] (namedChildren node) = concat (map (\<lambda>t. t @ ''.'') (childTexts node))"
    by (simp add: compositeLoop_concat childTexts_def comp_def)
  also have "\<dots> = Join (childTexts node) ''.'' @ ''.''"
    by (rule concat_dots_Join[OF ne])
  finally show ?thesis by (simp add: TrimSuffix_def)
qed

lemma isRedundantChildren_iff:
  "isRedundantChildren node \<longleftrightarrow>
     ctype node = ''scoped_identifier''
     \<and> TrimSpace (content node) = Join (childTexts node) ''.''"
  by (simp add: isRedundantChildren_def Let_def composite_is_Join)

lemma traverseTree_unfold:
  "traverseTree node =
     (let v = (if ctype node \<noteq> ''class_declaration''
               then sanitizeValue (TrimSpace (content node)) else [])
      in if v \<noteq> [] \<and> isRedundantChildren node
         then Node (ctype node) v []
         else Node (ctype node) v (map traverseTree (namedChildren node)))"
  by (cases node) (simp add: Let_def)

lemma outerScoped_texts:
  "TrimSpace (content outerScoped) = ''a  . b.c''"
  "Join (childTexts outerScoped) ''.'' = ''a  . b.c''"
  "TrimSpace (content innerScoped) = ''a  . b''"
  "Join (childTexts innerScoped) ''.'' = ''a.b''"
  by (code_simp)+

lemma outerScoped_reduced:
  "traverseTree outerScoped = Node ''scoped_identifier'' ''a . b.c'' []"
  by code_simp

lemma innerScoped_reduced:
  "traverseTree innerScoped =
     Node ''scoped_identifier'' ''a . b''
       [Node ''identifier'' ''a'' [], Node ''identifier'' ''b'' []]"
  by code_simp

lemma emptyScoped_reduced:
  "traverseTree emptyScoped = Node ''scoped_identifier'' [] [Node ''identifier'' [] []]"
  "TrimSpace (content emptyScoped) = []"
  "Join (childTexts emptyScoped) ''.'' = []"
  by (code_simp)+

text \<open>
  Claim C1, as stated: a \<^verbatim>\<open>scoped_identifier\<close> node is collapsed exactly when its
  trimmed text equals the \<open>.\<close>-join of its named children's trimmed texts; when equal,
  the reduced node has no children and its Value is that text; when not equal, it keeps
  all its named children, reduced, in source order.

  Two parts fail. The Value of a collapsed node is the sanitized text, not the text: for
  \<^verbatim>\<open>a  . b.c\<close> the texts are equal, the node is collapsed, and its Value is
  \<^verbatim>\<open>a . b.c\<close>. And line 96 asks for a non-empty Value first: a node whose text is empty
  is not collapsed although its text equals the join.
\<close>

theorem C1_collapse_counterexample:
  "TrimSpace (content outerScoped) = Join (childTexts outerScoped) ''.''
   \<and> Children (traverseTree outerScoped) = []
   \<and> Value (traverseTree outerScoped) \<noteq> TrimSpace (content outerScoped)
   \<and> TrimSpace (content emptyScoped) = Join (childTexts emptyScoped) ''.''
   \<and> Children (traverseTree emptyScoped) \<noteq> []"
  by (simp add: outerScoped_texts outerScoped_reduced emptyScoped_reduced)

text \<open>
  Claim C1, amended: a \<^verbatim>\<open>scoped_identifier\<close> node is collapsed exactly when its
  Value (the sanitized trimmed text) is not empty and its trimmed text equals the
  \<open>.\<close>-join of its named children's trimmed texts. When collapsed, the reduced node has
  no children and its Value is the sanitized trimmed text; otherwise it has the same
  Value and keeps all its named children, reduced, in source order.
\<close>

theorem C1_scoped_identifier_collapse:
  assumes "ctype node = ''scoped_identifier''"
  shows "traverseTree node =
     (if sanitizeValue (TrimSpace (content node)) \<noteq> []
         \<and> TrimSpace (content node) = Join (childTexts node) ''.''
      then Node ''scoped_identifier'' (sanitizeValue (TrimSpace (content node))) []
      else Node ''scoped_identifier'' (sanitizeValue (TrimSpace (content node)))
             (map traverseTree (namedChildren node)))"
proof -
  define V where "V = sanitizeValue (TrimSpace (content node))"
  define E where "E \<longleftrightarrow> TrimSpace (content node) = Join (childTexts node) ''.''"
  have ty: "ctype node \<noteq> ''class_declaration''" using assms by simp
  have red: "isRedundantChildren node \<longleftrightarrow> E"
    using assms by (simp add: isRedundantChildren_iff E_def)
  have "traverseTree node =
      (if V \<noteq> [] \<and> E then Node (ctype node) V []
       else Node (ctype node) V (map traverseTree (namedChildren node)))"
    by (subst traverseTree_unfold) (simp only: Let_def ty if_True not_False_eq_True V_def[symmetric] red)
  then show ?thesis by (simp only: V_def E_def assms)
qed

theorem C1_scoped_identifier_collapse_witness:
  "ctype outerScoped = ''scoped_identifier''
   \<and> traverseTree outerScoped = Node ''scoped_identifier'' ''a . b.c'' []
   \<and> ctype innerScoped = ''scoped_identifier''
   \<and> TrimSpace (content innerScoped) \<noteq> Join (childTexts innerScoped) ''.''
   \<and> traverseTree innerScoped =
        Node ''scoped_identifier'' ''a . b''
          [Node ''identifier'' ''a'' [], Node ''identifier'' ''b'' []]"
proof -
  have o: "ctype outerScoped = ''scoped_identifier''" by (simp add: outerScoped_def)
  have i: "ctype innerScoped = ''scoped_identifier''" by (simp add: innerScoped_def)
  have so: "sanitizeValue ''a  . b.c'' = ''a . b.c''" by code_simp
  have si: "sanitizeValue ''a  . b'' = ''a . b''" by code_simp
  have ci: "map traverseTree (namedChildren innerScoped) =
      [Node ''identifier'' ''a'' [], Node ''identifier'' ''b'' []]" by code_simp
  show ?thesis
    using C1_scoped_identifier_collapse[OF o] C1_scoped_identifier_collapse[OF i]
    by (simp add: outerScoped_texts o i so si ci)
qed

text \<open>
  Claim C4, as stated: the reducer leaves Value unset on a declaration container, the
  class or interface declaration node; on every other node Value is the sanitized,
  trimmed text of the node; in particular an \<^verbatim>\<open>interface_declaration\<close> node carries
  no Value. Line 89 excepts the type \<^verbatim>\<open>class_declaration\<close> alone (and its comment
  names that type alone): an \<^verbatim>\<open>interface_declaration\<close> node gets its text as Value.
\<close>

theorem C4_interface_counterexample:
  "Value (traverseTree interfaceNode) = ''interface A { }''"
  by code_simp

text \<open>
  Claim C4, amended: on a node of type \<^verbatim>\<open>class_declaration\<close> the reducer leaves Value
  empty; on a node of any other type, \<^verbatim>\<open>interface_declaration\<close> included, Value is
  the sanitized, white-space-trimmed source text spanned by the node.
\<close>

theorem C4_value_rule:
  "Value (traverseTree node) =
     (if ctype node = ''class_declaration'' then []
      else sanitizeValue (TrimSpace (content node)))"
  by (subst traverseTree_unfold) (simp add: Let_def)

theorem C4_value_rule_witness:
  "Value (traverseTree (CNode ''class_declaration'' ''class A { }''
            [CNode ''identifier'' ''A'' [], CNode ''class_body'' ''{ }'' []])) = []
   \<and> Value (traverseTree interfaceNode) = sanitizeValue (TrimSpace (content interfaceNode))"
  using C4_value_rule[of "CNode ''class_declaration'' ''class A { }''
            [CNode ''identifier'' ''A'' [], CNode ''class_body'' ''{ }'' []]"]
    C4_value_rule[of interfaceNode]
  by (simp add: interfaceNode_def)

text \<open>
  Claim C7. The collapse is gated on the type: a node whose type is not
  \<^verbatim>\<open>scoped_identifier\<close> never loses children. The children of its reduction are the
  reductions of all its named children, in source order, also when its own text equals
  the \<open>.\<close>-join of its children's texts.
\<close>

theorem C7_collapse_type_gated:
  assumes "ctype node \<noteq> ''scoped_identifier''"
  shows "Children (traverseTree node) = map traverseTree (namedChildren node)"
  using assms
  by (subst traverseTree_unfold) (simp add: isRedundantChildren_iff Let_def)

theorem C7_collapse_type_gated_witness:
  "ctype fieldAccess \<noteq> ''scoped_identifier''
   \<and> TrimSpace (content fieldAccess) = Join (childTexts fieldAccess) ''.''
   \<and> Children (traverseTree fieldAccess) =
        [Node ''identifier'' ''a'' [], Node ''identifier'' ''b'' []]"
proof -
  have t: "ctype fieldAccess \<noteq> ''scoped_identifier''" by (simp add: fieldAccess_def)
  have j: "TrimSpace (content fieldAccess) = Join (childTexts fieldAccess) ''.''"
    by code_simp
  have c: "map traverseTree (namedChildren fieldAccess) =
      [Node ''identifier'' ''a'' [], Node ''identifier'' ''b'' []]" by code_simp
  show ?thesis using C7_collapse_type_gated[OF t] t j c by simp
qed

section \<open>The claims about the locator and the emitter\<close>

lemma innerLoop_firstIdentifier:
  "innerLoop className gs = (case firstIdentifier gs of None \<Rightarrow> className | Some name \<Rightarrow> name)"
  by (induction gs) simp_all

lemma outerLoop_declNames:
  "outerLoop className cs = (if declNames cs = [] then className else last (declNames cs))"
proof (induction cs arbitrary: className)
  case Nil
  show ?case by simp
next
  case (Cons c cs)
  show ?case
    by (simp add: Cons.IH innerLoop_firstIdentifier isDeclaration_def split: option.splits)
qed

lemma declNames_empty:
  "declNames cs = [] \<longleftrightarrow>
     (\<forall>c \<in> set cs. isDeclaration c \<longrightarrow> firstIdentifier (Children c) = None)"
  by (induction cs) (auto split: option.splits)


lemma twoClasses_reduced: "traverseTree twoClassesTree = twoClasses"
  unfolding twoClassesTree_def twoClasses_def by code_simp

lemma twoClasses_tree: "extractTree twoClassesEnv ''src/A.java'' [] = Inr twoClasses"
  by (simp add: extractTree_def twoClassesEnv_def testEnv_def twoClasses_reduced)

lemma Ext_A_java: "Ext ''A.java'' = ''.java''"
  by code_simp

lemma twoClasses_names: "declNames (Children twoClasses) = [''Foo'', ''Bar'']"
  by (simp add: twoClasses_def isDeclaration_def)

lemma twoClasses_saved:
  "saveClassToFileWithDir twoClassesEnv twoClasses ''src/A.java'' ''src'' emptyWorld =
     (None, \<lparr> fsys = [(''output/Bar.json'', ''{}'')],
              logged = [''Classe Bar salva em output/Bar.json''] \<rparr>)"
  by (simp add: saveClassToFileWithDir_def twoClasses_def twoClassesEnv_def testEnv_def
      emptyWorld_def MarshalIndent_def logPrintf_def Let_def)

text \<open>
  Claim C2. Scanning only the immediate children of the root, the locator takes the name
  from the first child that is a declaration (class-like or interface-like), as the
  Value of its first grandchild of type identifier; later top-level declarations are
  ignored for naming, and the artifact's name never comes from a declaration other than
  the first one that has an identifier.

  The code does not behave so. The \<^verbatim>\<open>break\<close> of line 146 ends the inner loop over
  the grandchildren only; the outer loop of line 141 goes on and assigns \<^verbatim>\<open>className\<close>
  again at every later declaration that has an identifier, although the comments of
  lines 24 and 138 speak of one file for each class and of the name of the class found.
  On the file \<^verbatim>\<open>class Foo { } class Bar { }\<close> the first declaration with an
  identifier gives Foo, the loops of lines 141--150 end with Bar, and the one artifact
  the callback of the walk writes for the file is \<^verbatim>\<open>Bar.json\<close>.
\<close>

theorem C2_two_classes_named_after_last:
  "extractTree twoClassesEnv ''src/A.java'' [] = Inr twoClasses
   \<and> specLocate (Children twoClasses) = Some ''Foo''
   \<and> outerLoop [] (Children twoClasses) = ''Bar''
   \<and> walkFn twoClassesEnv ''src'' ''src/A.java'' (Some (DirEntry ''A.java'' False)) None
         emptyWorld =
       (Ret None, \<lparr> fsys = [(''output/Bar.json'', ''{}'')],
                    logged = [''Classe Bar salva em output/Bar.json''] \<rparr>)"
proof -
  have t: "extractTree twoClassesEnv ''src/A.java'' (fsys emptyWorld) = Inr twoClasses"
    using twoClasses_tree by (simp add: emptyWorld_def)
  have "walkFn twoClassesEnv ''src'' ''src/A.java'' (Some (DirEntry ''A.java'' False)) None
         emptyWorld =
       (Ret None, \<lparr> fsys = [(''output/Bar.json'', ''{}'')],
                    logged = [''Classe Bar salva em output/Bar.json''] \<rparr>)"
    by (simp add: walkFn_def Ext_A_java t twoClasses_saved)
  moreover have "specLocate (Children twoClasses) = Some ''Foo''"
    by (simp add: twoClasses_def isDeclaration_def)
  moreover have "outerLoop [] (Children twoClasses) = ''Bar''"
    by (simp add: outerLoop_declNames twoClasses_names)
  ultimately show ?thesis using twoClasses_tree by simp
qed

text \<open>
  Claim C8. When no declaration/identifier pair exists among the immediate children of
  the root, the file produces no artifact (the file system is left as it was), the
  condition is only logged, and the per-file step returns nil; the callback of the walk
  returns nil too, so the walk goes on to the next file.
\<close>

theorem C8_not_found_is_not_an_error:
  assumes "\<forall>child \<in> set (Children tree).
             isDeclaration child \<longrightarrow> firstIdentifier (Children child) = None"
  shows "saveClassToFileWithDir env tree filePath rootDir w =
           (None, logPrintf (''Nenhuma classe ou interface encontrada em '' @ filePath) w)
         \<and> fsys (snd (saveClassToFileWithDir env tree filePath rootDir w)) = fsys w
         \<and> (extractTree env filePath (fsys w) = Inr tree \<longrightarrow>
              walkFn env rootDir filePath (Some (DirEntry name False)) None w =
                (if Ext name \<noteq> ''.java'' then (Ret None, w)
                 else (Ret None,
                       logPrintf (''Nenhuma classe ou interface encontrada em '' @ filePath) w)))"
proof -
  have "declNames (Children tree) = []" using assms by (simp add: declNames_empty)
  then have cn: "outerLoop [] (Children tree) = []" by (simp add: outerLoop_declNames)
  have s: "saveClassToFileWithDir env tree filePath rootDir w =
           (None, logPrintf (''Nenhuma classe ou interface encontrada em '' @ filePath) w)"
    by (simp add: saveClassToFileWithDir_def cn)
  show ?thesis by (simp add: s walkFn_def logPrintf_def)
qed

lemma packageEnv_tree:
  "extractTree packageEnv ''src/P.java'' [] = Inr packageOnly"
  unfolding packageEnv_def testEnv_def packageOnly_def extractTree_def
  by code_simp

lemma Ext_P_java: "Ext ''P.java'' = ''.java''"
  by code_simp

theorem C8_not_found_is_not_an_error_witness:
  "saveClassToFileWithDir packageEnv packageOnly ''src/P.java'' ''src'' emptyWorld =
     (None, \<lparr> fsys = [], logged = [''Nenhuma classe ou interface encontrada em src/P.java''] \<rparr>)
   \<and> walkFn packageEnv ''src'' ''src/P.java'' (Some (DirEntry ''P.java'' False)) None emptyWorld =
     (Ret None,
      \<lparr> fsys = [], logged = [''Nenhuma classe ou interface encontrada em src/P.java''] \<rparr>)"
proof -
  have h: "\<forall>child \<in> set (Children packageOnly).
             isDeclaration child \<longrightarrow> firstIdentifier (Children child) = None"
    by (simp add: packageOnly_def isDeclaration_def)
  have t: "extractTree packageEnv ''src/P.java'' (fsys emptyWorld) = Inr packageOnly"
    using packageEnv_tree by (simp add: emptyWorld_def)
  show ?thesis
    using C8_not_found_is_not_an_error[OF h, of packageEnv "''src/P.java''" "''src''" emptyWorld
        "''P.java''"] t
    by (simp add: Ext_P_java) (simp add: logPrintf_def emptyWorld_def)
qed






section \<open>The claims about the walker\<close>















section \<open>The claim about the JSON shape\<close>

lemma toValidUTF8_Nil_iff: "toValidUTF8 s = [] \<longleftrightarrow> s = []"
proof (cases "s = []")
  case True
  then show ?thesis by (simp add: toValidUTF8.simps)
next
  case False
  obtain r w where rw: "decodeRune s = (r, w)" by (cases "decodeRune s") auto
  have "1 \<le> w" "w \<le> length s" using decodeRune_width[OF False] rw by auto
  then have "take w s \<noteq> []" using False by auto
  then have "toValidUTF8 s \<noteq> []"
    using False rw by (subst toValidUTF8.simps) auto
  then show ?thesis using False by simp
qed

lemma toValidUTF8_valid: "ValidString s \<Longrightarrow> toValidUTF8 s = s"
proof (induction s rule: ValidString.induct)
  case (1 s)
  show ?case
  proof (cases "s = []")
    case True
    then show ?thesis by (simp add: toValidUTF8.simps)
  next
    case False
    obtain r w where rw: "decodeRune s = (r, w)" by (cases "decodeRune s") auto
    have ok: "\<not> (r = RuneError \<and> w = 1)" "ValidString (drop w s)"
      using "1.prems" False rw by (subst (asm) ValidString.simps; simp split: if_splits)+
    have "toValidUTF8 (drop w s) = drop w s"
      using "1.IH"[OF False rw[symmetric] refl ok(1) ok(2)] .
    then show ?thesis using False rw ok(1)
      by (subst toValidUTF8.simps) auto
  qed
qed

lemma unmarshalNodes_map:
  assumes "\<And>c. c \<in> set cs \<Longrightarrow> unmarshalNode (marshalNode c) = Some (coerceNode c)"
  shows "unmarshalNodes (map marshalNode cs) = Some (map coerceNode cs)"
  using assms by (induction cs) simp_all

lemma unmarshal_marshal: "unmarshalNode (marshalNode n) = Some (coerceNode n)"
proof (induction n)
  case (Node t v cs)
  have kids: "unmarshalNodes (map marshalNode cs) = Some (map coerceNode cs)"
    by (rule unmarshalNodes_map) (rule Node.IH)
  show ?case
    by (cases "v = []"; cases "cs = []") (simp_all add: kids toValidUTF8_Nil_iff toValidUTF8.simps[of "[]"])
qed

lemma coerceNode_valid: "validNode n \<Longrightarrow> coerceNode n = n"
proof (induction n)
  case (Node t v cs)
  then have "map coerceNode cs = cs" by (simp add: map_idI)
  then show ?case using Node.prems by (simp add: toValidUTF8_valid)
qed

lemma latin1Text_TrimSpace: "TrimSpace latin1Text = latin1Text"
  by (simp add: latin1Text_def TrimSpace_def TrimFunc_def TrimLeftFunc_def TrimRightFunc_def
      indexFunc.simps lastIndexFunc.simps decodeLastRune_def lastRuneStart_def findStart.simps
      RuneStart_def UTFMax_def decodeRune_def acceptRange_def byte_def RuneSelf_def
      RuneError_def isSpace_def)

lemma latin1Text_sanitizeValue: "sanitizeValue latin1Text = latin1Text"
  by (simp add: latin1Text_def sanitizeValue_def ReplaceAll_def replaceLoop.simps Fields_def
      FieldsFunc_def fieldsLoop.simps Let_def decodeRune_def acceptRange_def byte_def
      RuneSelf_def RuneError_def isSpace_def spaceChar_def split del: if_split)

lemma latin1Text_toValidUTF8:
  "toValidUTF8 latin1Text = ''// '' @ [CHR 0xEF, CHR 0xBF, CHR 0xBD]"
  by (simp add: latin1Text_def toValidUTF8.simps Let_def decodeRune_def acceptRange_def
      byte_def RuneSelf_def RuneError_def split del: if_split)

lemma latin1Text_not_empty: "latin1Text \<noteq> []"
  by (simp add: latin1Text_def)

lemma latin1Comment_reduced:
  "traverseTree (CNode ''line_comment'' latin1Text []) = latin1Comment"
  by (subst traverseTree_unfold)
     (simp add: latin1Comment_def latin1Text_TrimSpace latin1Text_sanitizeValue
        isRedundantChildren_def)

lemma ascii_toValidUTF8: "(\<forall>c \<in> set s. byte c < 0x80) \<Longrightarrow> toValidUTF8 s = s"
proof (induction s)
  case Nil
  show ?case by (simp add: toValidUTF8.simps)
next
  case (Cons c s)
  then have "decodeRune (c # s) = (byte c, 1)" using decodeRune_ascii[of "c # s"] by simp
  then show ?case using Cons by (subst toValidUTF8.simps) (simp add: RuneError_def)
qed

lemma ascii_ValidString: "(\<forall>c \<in> set s. byte c < 0x80) \<Longrightarrow> ValidString s"
proof (induction s)
  case Nil
  show ?case by (simp add: ValidString.simps)
next
  case (Cons c s)
  then have "decodeRune (c # s) = (byte c, 1)" using decodeRune_ascii[of "c # s"] by simp
  then show ?case using Cons by (subst ValidString.simps) (simp add: RuneError_def)
qed

lemma latin1Comment_roundtrip:
  "unmarshalNode (marshalNode latin1Comment) =
     Some (Node ''line_comment'' (''// '' @ [CHR 0xEF, CHR 0xBF, CHR 0xBD]) [])"
proof -
  have "toValidUTF8 ''line_comment'' = ''line_comment''"
    by (rule ascii_toValidUTF8) (simp add: byte_def)
  then show ?thesis
    by (simp add: latin1Comment_def latin1Text_toValidUTF8 latin1Text_not_empty)
qed

text \<open>
  Claim C9, as stated: for every reduced Node, serializing it to the output JSON shape
  (\<^verbatim>\<open>value\<close> omitted when empty, \<^verbatim>\<open>children\<close> omitted when empty) and decoding that
  JSON yields a structurally identical tree, the presence of the fields matching the
  emptiness of Value and Children exactly.

  The tree that comes back is not always the tree that went in: a Value is a slice of
  the source file, and \<^verbatim>\<open>json.Marshal\<close> replaces every byte of it that is not valid
  UTF-8 by U+FFFD. The comment above comes back with three other bytes in place of
  \<open>E9\<close>.
\<close>

theorem C9_roundtrip_counterexample:
  "traverseTree (CNode ''line_comment'' latin1Text []) = latin1Comment
   \<and> unmarshalNode (marshalNode latin1Comment) \<noteq> Some latin1Comment"
proof -
  have "unmarshalNode (marshalNode latin1Comment) \<noteq> Some latin1Comment"
    unfolding latin1Comment_roundtrip by (simp add: latin1Comment_def latin1Text_def)
  then show ?thesis using latin1Comment_reduced by blast
qed

text \<open>
  Claim C9, amended: for every Node, the JSON written has the field \<^verbatim>\<open>value\<close> exactly
  when Value is not empty and the field \<^verbatim>\<open>children\<close> exactly when Children is not
  empty, and decoding it yields the tree with every string coerced to valid UTF-8; for
  every Node whose strings are valid UTF-8, at every level, decoding yields the
  identical tree.
\<close>

theorem C9_roundtrip:
  "(''value'' \<in> set (jsonKeys (marshalNode n)) \<longleftrightarrow> Value n \<noteq> [])
   \<and> (''children'' \<in> set (jsonKeys (marshalNode n)) \<longleftrightarrow> Children n \<noteq> [])
   \<and> unmarshalNode (marshalNode n) = Some (coerceNode n)
   \<and> (validNode n \<longrightarrow> unmarshalNode (marshalNode n) = Some n)"
proof -
  have keys: "(''value'' \<in> set (jsonKeys (marshalNode n)) \<longleftrightarrow> Value n \<noteq> [])
      \<and> (''children'' \<in> set (jsonKeys (marshalNode n)) \<longleftrightarrow> Children n \<noteq> [])"
    by (cases n) simp
  show ?thesis using keys unmarshal_marshal[of n] coerceNode_valid[of n] by simp
qed

lemma fooTree_valid: "validNode fooTree"
  by (simp add: fooTree_def ascii_ValidString byte_def)

theorem C9_roundtrip_witness:
  "validNode fooTree \<and> unmarshalNode (marshalNode fooTree) = Some fooTree
   \<and> jsonKeys (marshalNode fooTree) = [''type'', ''value'', ''children'']"
proof -
  have "jsonKeys (marshalNode fooTree) = [''type'', ''value'', ''children'']"
    by (simp add: fooTree_def)
  then show ?thesis using C9_roundtrip[of fooTree] fooTree_valid by blast
qed

end
